theory Spec2Isabelle
  imports Main "HOL-Library.Word"
begin

unbundle bit_operations_syntax

section \<open>CPU-target dispatch core of \<^verbatim>\<open>src/processor.cpp\<close>\<close>

text \<open>
  The C++ source works on \<^verbatim>\<open>uint32_t\<close> arrays, NUL-terminated strings and raw
  pointers. The embedding keeps its functions and names and makes explicit what C++
  leaves implicit:
  \<^item> a \<^verbatim>\<open>FeatureList<n>\<close> is a list of \<open>n\<close> 32-bit words; the template
    parameter \<open>n\<close> is passed as an argument;
  \<^item> a read or write outside an array (undefined behaviour in C++) is the error
    \<open>OutOfBounds\<close>; a failed \<^verbatim>\<open>assert\<close> is \<open>AssertFailed\<close>; a call of
    \<^verbatim>\<open>jl_error\<close> is \<open>JlError\<close> with the message; an overflowing \<^verbatim>\<open>int\<close>
    addition (undefined as well) is \<open>SignedOverflow\<close>;
  \<^item> loops are recursive functions, each with its termination proof.
\<close>

type_synonym u32 = "32 word"
type_synonym u8 = "8 word"

datatype error =
    OutOfBounds
  | AssertFailed string
  | JlError string
  | SignedOverflow

subsection \<open>Helper functions to test and set feature bits (lines 65-116)\<close>

definition test_nbit :: "u32 list \<Rightarrow> u32 \<Rightarrow> error + bool" where
  "test_nbit bits bitidx =
     (let u32idx = unat (bitidx div 32); b = unat (bitidx mod 32)
      in if u32idx < length bits
         then Inr ((bits ! u32idx) AND push_bit b 1 \<noteq> 0)
         else Inl OutOfBounds)"

text \<open>The variadic \<^verbatim>\<open>unset_bits(bits, i1, i2, ...)\<close> takes its indices as a list.\<close>

fun unset_bits :: "u32 list \<Rightarrow> u32 list \<Rightarrow> error + u32 list" where
  "unset_bits bits [] = Inr bits"
| "unset_bits bits (bitidx # rest) =
     (let u32idx = unat (bitidx div 32); b = unat (bitidx mod 32)
      in if u32idx < length bits
         then unset_bits (bits[u32idx := (bits ! u32idx) AND NOT (push_bit b 1)]) rest
         else Inl OutOfBounds)"

text \<open>\<^verbatim>\<open>set_bit\<close>; the name \<open>set_bit\<close> is a constant of the word library already.\<close>

definition set_bit_fl :: "u32 list \<Rightarrow> u32 \<Rightarrow> bool \<Rightarrow> error + u32 list" where
  "set_bit_fl bits bitidx val =
     (let u32idx = unat (bitidx div 32); b = unat (bitidx mod 32)
      in if u32idx < length bits
         then (if val
               then Inr (bits[u32idx := (bits ! u32idx) OR push_bit b 1])
               else Inr (bits[u32idx := (bits ! u32idx) AND NOT (push_bit b 1)]))
         else Inl OutOfBounds)"

subsection \<open>\<^verbatim>\<open>FeatureList<n>\<close> and its algebra (lines 120-253)\<close>

text \<open>\<^verbatim>\<open>FeatureList<n>::empty()\<close> as \<open>empty_fl\<close>: the loop over \<open>i = 0 ..< n\<close>.\<close>

function empty_from :: "nat \<Rightarrow> u32 list \<Rightarrow> nat \<Rightarrow> bool" where
  "empty_from n eles i =
     (if i < n then (if eles ! i \<noteq> 0 then False else empty_from n eles (Suc i))
      else True)"
  by pat_completeness auto
termination
  by (relation "measure (\<lambda>(n, eles, i). n - i)") auto

declare empty_from.simps [simp del]

definition empty_fl :: "nat \<Rightarrow> u32 list \<Rightarrow> bool" where
  "empty_fl n eles = empty_from n eles 0"

function features_le_from :: "nat \<Rightarrow> u32 list \<Rightarrow> u32 list \<Rightarrow> nat \<Rightarrow> bool" where
  "features_le_from n a b i =
     (if i < n then (if (a ! i) AND NOT (b ! i) \<noteq> 0 then False
                     else features_le_from n a b (Suc i))
      else True)"
  by pat_completeness auto
termination
  by (relation "measure (\<lambda>(n, a, b, i). n - i)") auto

declare features_le_from.simps [simp del]

definition features_le :: "nat \<Rightarrow> u32 list \<Rightarrow> u32 list \<Rightarrow> bool" where
  "features_le n a b = features_le_from n a b 0"

text \<open>
  \<^verbatim>\<open>add_feature_mask_u32\<close> (lines 169-181): the variadic bits are a list of
  \<^verbatim>\<open>int(bit)\<close> values; a negative bit (the sentinel \<open>-1\<close>) adds nothing.
\<close>

fun add_feature_mask_u32 :: "u32 \<Rightarrow> u32 \<Rightarrow> int list \<Rightarrow> u32" where
  "add_feature_mask_u32 m u32idx [] = m"
| "add_feature_mask_u32 m u32idx (b # args) =
     add_feature_mask_u32
       (m OR (if b \<ge> 0 \<and> b div 32 = sint u32idx then push_bit (nat (b mod 32)) 1 else 0))
       u32idx args"

definition get_feature_mask_u32 :: "u32 \<Rightarrow> int list \<Rightarrow> u32" where
  "get_feature_mask_u32 u32idx args = add_feature_mask_u32 0 u32idx args"

definition get_feature_masks :: "nat \<Rightarrow> int list \<Rightarrow> u32 list" where
  "get_feature_masks n args = map (\<lambda>I. get_feature_mask_u32 (of_nat I) args) [0..<n]"

text \<open>The operators \<^verbatim>\<open>|\<close>, \<^verbatim>\<open>&\<close> and \<^verbatim>\<open>~\<close> on \<^verbatim>\<open>FeatureList<n>\<close>.\<close>

definition feature_mask_or :: "nat \<Rightarrow> u32 list \<Rightarrow> u32 list \<Rightarrow> u32 list" where
  "feature_mask_or n a b = map (\<lambda>I. (a ! I) OR (b ! I)) [0..<n]"

definition feature_mask_and :: "nat \<Rightarrow> u32 list \<Rightarrow> u32 list \<Rightarrow> u32 list" where
  "feature_mask_and n a b = map (\<lambda>I. (a ! I) AND (b ! I)) [0..<n]"

definition feature_mask_not :: "nat \<Rightarrow> u32 list \<Rightarrow> u32 list" where
  "feature_mask_not n a = map (\<lambda>I. NOT (a ! I)) [0..<n]"

subsection \<open>Dependency closure (lines 308-343)\<close>

record FeatureDep =
  feature :: u32
  dep :: u32

text \<open>
  One pass of the inner \<^verbatim>\<open>for\<close> loop of \<^verbatim>\<open>enable_depends\<close>, over the edges in
  the order the loop visits them (the caller passes the table reversed). The state is
  the feature list and the \<^verbatim>\<open>changed\<close> flag. \<^verbatim>\<open>||\<close> short-circuits: the
  second test is only made when the first bit is set.
\<close>

fun enable_pass :: "u32 list \<Rightarrow> bool \<Rightarrow> FeatureDep list \<Rightarrow> error + (u32 list \<times> bool)" where
  "enable_pass features changed [] = Inr (features, changed)"
| "enable_pass features changed (d # ds) =
     (case test_nbit features (feature d) of
        Inl e \<Rightarrow> Inl e
      | Inr False \<Rightarrow> enable_pass features changed ds
      | Inr True \<Rightarrow>
          (case test_nbit features (dep d) of
             Inl e \<Rightarrow> Inl e
           | Inr True \<Rightarrow> enable_pass features changed ds
           | Inr False \<Rightarrow>
               (case set_bit_fl features (dep d) True of
                  Inl e \<Rightarrow> Inl e
                | Inr features' \<Rightarrow> enable_pass features' True ds)))"

fun disable_pass :: "u32 list \<Rightarrow> bool \<Rightarrow> FeatureDep list \<Rightarrow> error + (u32 list \<times> bool)" where
  "disable_pass features changed [] = Inr (features, changed)"
| "disable_pass features changed (d # ds) =
     (case test_nbit features (feature d) of
        Inl e \<Rightarrow> Inl e
      | Inr False \<Rightarrow> disable_pass features changed ds
      | Inr True \<Rightarrow>
          (case test_nbit features (dep d) of
             Inl e \<Rightarrow> Inl e
           | Inr True \<Rightarrow> disable_pass features changed ds
           | Inr False \<Rightarrow>
               (case unset_bits features [feature d] of
                  Inl e \<Rightarrow> Inl e
                | Inr features' \<Rightarrow> disable_pass features' True ds)))"

text \<open>
  The set of bits of a feature list, as positions (word index, bit index): the
  abstraction the closure proofs work on.
\<close>

definition bits_of :: "u32 list \<Rightarrow> (nat \<times> nat) set" where
  "bits_of fs = {(i, j). i < length fs \<and> j < 32 \<and> bit (fs ! i) j}"

definition pos :: "u32 \<Rightarrow> nat \<times> nat" where
  "pos k = (unat (k div 32), unat (k mod 32))"

lemma pos_lt: "snd (pos k) < 32"
  by (simp add: pos_def unat_mod_distrib)

lemma bits_of_finite: "finite (bits_of fs)"
proof -
  have "bits_of fs \<subseteq> {..<length fs} \<times> {..<32}" by (auto simp: bits_of_def)
  then show ?thesis by (rule finite_subset) simp
qed

lemma bits_of_card: "card (bits_of fs) \<le> 32 * length fs"
proof -
  have "bits_of fs \<subseteq> {..<length fs} \<times> {..<32}" by (auto simp: bits_of_def)
  then have "card (bits_of fs) \<le> card ({..<length fs} \<times> {..<32::nat})"
    by (intro card_mono) auto
  then show ?thesis by (simp add: mult.commute)
qed

lemma test_nbit_Inr:
  "test_nbit fs k = Inr v \<Longrightarrow> fst (pos k) < length fs \<and> v = (pos k \<in> bits_of fs)"
  using pos_lt[of k]
  by (auto simp: test_nbit_def pos_def Let_def bits_of_def and_exp_eq_0_iff_not_bit split: if_splits)

lemma set_bit_fl_True:
  "set_bit_fl fs k True = Inr fs' \<Longrightarrow>
     length fs' = length fs \<and> bits_of fs' = insert (pos k) (bits_of fs)"
  using pos_lt[of k]
  by (auto simp: set_bit_fl_def pos_def Let_def bits_of_def bit_simps nth_list_update split: if_splits)

lemma unset_bits_one:
  "unset_bits fs [k] = Inr fs' \<Longrightarrow>
     length fs' = length fs \<and> bits_of fs' = bits_of fs - {pos k}"
  using pos_lt[of k]
  by (auto simp: pos_def Let_def bits_of_def bit_simps nth_list_update split: if_splits)

lemma enable_pass_inv:
  "enable_pass fs c ds = Inr (fs', c') \<Longrightarrow>
     length fs' = length fs \<and> bits_of fs \<subseteq> bits_of fs' \<and>
     (c \<longrightarrow> c') \<and> (c' \<longrightarrow> c \<or> bits_of fs \<subset> bits_of fs') \<and> (\<not> c' \<longrightarrow> fs' = fs)"
proof (induction ds arbitrary: fs c)
  case Nil
  then show ?case by simp
next
  case (Cons d ds)
  show ?case
  proof (cases "test_nbit fs (feature d)")
    case (Inl e)
    with Cons.prems show ?thesis by simp
  next
    case (Inr v)
    show ?thesis
    proof (cases v)
      case False
      with Inr Cons.prems have "enable_pass fs c ds = Inr (fs', c')" by simp
      from Cons.IH[OF this] show ?thesis .
    next
      case True
      show ?thesis
      proof (cases "test_nbit fs (dep d)")
        case (Inl e)
        with Inr True Cons.prems show ?thesis by simp
      next
        case t2: (Inr w)
        show ?thesis
        proof (cases w)
          case True
          with t2 Inr \<open>v\<close> Cons.prems have "enable_pass fs c ds = Inr (fs', c')" by simp
          from Cons.IH[OF this] show ?thesis .
        next
          case False
          with t2 have notin: "pos (dep d) \<notin> bits_of fs" using test_nbit_Inr by blast
          show ?thesis
          proof (cases "set_bit_fl fs (dep d) True")
            case (Inl e)
            with Inr \<open>v\<close> t2 False Cons.prems show ?thesis by simp
          next
            case s: (Inr fs1)
            with Inr \<open>v\<close> t2 False Cons.prems have r: "enable_pass fs1 True ds = Inr (fs', c')" by simp
            from set_bit_fl_True[OF s] have l: "length fs1 = length fs"
              and b: "bits_of fs1 = insert (pos (dep d)) (bits_of fs)" by simp_all
            from b notin have "bits_of fs \<subset> bits_of fs1" by auto
            with Cons.IH[OF r] l show ?thesis by auto
          qed
        qed
      qed
    qed
  qed
qed

lemma disable_pass_inv:
  "disable_pass fs c ds = Inr (fs', c') \<Longrightarrow>
     length fs' = length fs \<and> bits_of fs' \<subseteq> bits_of fs \<and>
     (c \<longrightarrow> c') \<and> (c' \<longrightarrow> c \<or> bits_of fs' \<subset> bits_of fs) \<and> (\<not> c' \<longrightarrow> fs' = fs)"
proof (induction ds arbitrary: fs c)
  case Nil
  then show ?case by simp
next
  case (Cons d ds)
  show ?case
  proof (cases "test_nbit fs (feature d)")
    case (Inl e)
    with Cons.prems show ?thesis by simp
  next
    case (Inr v)
    show ?thesis
    proof (cases v)
      case False
      with Inr Cons.prems have "disable_pass fs c ds = Inr (fs', c')" by simp
      from Cons.IH[OF this] show ?thesis .
    next
      case True
      with Inr have isin: "pos (feature d) \<in> bits_of fs" using test_nbit_Inr by blast
      show ?thesis
      proof (cases "test_nbit fs (dep d)")
        case (Inl e)
        with Inr True Cons.prems show ?thesis by simp
      next
        case t2: (Inr w)
        show ?thesis
        proof (cases w)
          case True
          with t2 Inr \<open>v\<close> Cons.prems have "disable_pass fs c ds = Inr (fs', c')" by simp
          from Cons.IH[OF this] show ?thesis .
        next
          case False
          show ?thesis
          proof (cases "unset_bits fs [feature d]")
            case (Inl e)
            with Inr \<open>v\<close> t2 False Cons.prems show ?thesis by simp
          next
            case s: (Inr fs1)
            with Inr \<open>v\<close> t2 False Cons.prems have r: "disable_pass fs1 True ds = Inr (fs', c')" by simp
            from unset_bits_one[OF s] have l: "length fs1 = length fs"
              and b: "bits_of fs1 = bits_of fs - {pos (feature d)}" by simp_all
            from b isin have "bits_of fs1 \<subset> bits_of fs" by auto
            with Cons.IH[OF r] l show ?thesis by auto
          qed
        qed
      qed
    qed
  qed
qed

text \<open>
  \<^verbatim>\<open>enable_depends\<close> and \<^verbatim>\<open>disable_depends\<close>: the \<^verbatim>\<open>while (changed)\<close> loop
  runs one pass over the edges from the last to the first and repeats while a pass
  changed something. A pass that changes something adds (removes) at least one bit, which
  is the termination argument.
\<close>

function enable_depends :: "u32 list \<Rightarrow> FeatureDep list \<Rightarrow> error + u32 list" where
  "enable_depends features deps =
     (case enable_pass features False (rev deps) of
        Inl e \<Rightarrow> Inl e
      | Inr (features', changed) \<Rightarrow>
          if changed then enable_depends features' deps else Inr features')"
  by pat_completeness auto
termination
proof (relation "measure (\<lambda>(fs, deps). 32 * length fs - card (bits_of fs))")
  show "wf (measure (\<lambda>(fs, deps). 32 * length fs - card (bits_of fs)))" by simp
next
  fix features :: "u32 list" and deps :: "FeatureDep list" and x2 x y
  assume "enable_pass features False (rev deps) = Inr x2" "(x, y) = x2" "y"
  then have p: "enable_pass features False (rev deps) = Inr (x, True)" by simp
  from enable_pass_inv[OF p] have l: "length x = length features"
    and sub: "bits_of features \<subset> bits_of x" by simp_all
  from sub have "card (bits_of features) < card (bits_of x)"
    by (intro psubset_card_mono bits_of_finite)
  moreover have "card (bits_of x) \<le> 32 * length x" by (rule bits_of_card)
  ultimately show "((x, deps), (features, deps))
        \<in> measure (\<lambda>(fs, deps). 32 * length fs - card (bits_of fs))"
    using l by simp
qed

declare enable_depends.simps [simp del]

function disable_depends :: "u32 list \<Rightarrow> FeatureDep list \<Rightarrow> error + u32 list" where
  "disable_depends features deps =
     (case disable_pass features False (rev deps) of
        Inl e \<Rightarrow> Inl e
      | Inr (features', changed) \<Rightarrow>
          if changed then disable_depends features' deps else Inr features')"
  by pat_completeness auto
termination
proof (relation "measure (\<lambda>(fs, deps). card (bits_of fs))")
  show "wf (measure (\<lambda>(fs, deps). card (bits_of fs)))" by simp
next
  fix features :: "u32 list" and deps :: "FeatureDep list" and x2 x y
  assume "disable_pass features False (rev deps) = Inr x2" "(x, y) = x2" "y"
  then have p: "disable_pass features False (rev deps) = Inr (x, True)" by simp
  from disable_pass_inv[OF p] have sub: "bits_of x \<subset> bits_of features" by simp
  then have "card (bits_of x) < card (bits_of features)"
    by (intro psubset_card_mono bits_of_finite)
  then show "((x, deps), (features, deps)) \<in> measure (\<lambda>(fs, deps). card (bits_of fs))"
    by simp
qed

declare disable_depends.simps [simp del]

subsection \<open>The subset test\<close>

lemma features_le_from_iff:
  "features_le_from n a b i \<longleftrightarrow> (\<forall>j. i \<le> j \<and> j < n \<longrightarrow> (a ! j) AND NOT (b ! j) = 0)"
proof (induction n a b i rule: features_le_from.induct)
  case (1 n a b i)
  show ?case
  proof (cases "i < n")
    case False
    then show ?thesis by (subst features_le_from.simps) auto
  next
    case True
    show ?thesis
    proof (cases "(a ! i) AND NOT (b ! i) = 0")
      case False
      with True show ?thesis by (subst features_le_from.simps) auto
    next
      case z: True
      have "features_le_from n a b i = features_le_from n a b (Suc i)"
        using True z by (subst features_le_from.simps) simp
      also have "\<dots> \<longleftrightarrow> (\<forall>j. Suc i \<le> j \<and> j < n \<longrightarrow> (a ! j) AND NOT (b ! j) = 0)"
        using 1 True z by simp
      also have "\<dots> \<longleftrightarrow> (\<forall>j. i \<le> j \<and> j < n \<longrightarrow> (a ! j) AND NOT (b ! j) = 0)"
        using z by (metis Suc_leI le_neq_implies_less Suc_leD)
      finally show ?thesis .
    qed
  qed
qed

lemma features_le_iff:
  "features_le n a b \<longleftrightarrow> (\<forall>j<n. (a ! j) AND NOT (b ! j) = 0)"
  by (simp add: features_le_def features_le_from_iff)

lemma empty_from_iff:
  "empty_from n eles i \<longleftrightarrow> (\<forall>j. i \<le> j \<and> j < n \<longrightarrow> eles ! j = 0)"
proof (induction n eles i rule: empty_from.induct)
  case (1 n eles i)
  show ?case
  proof (cases "i < n")
    case False
    then show ?thesis by (subst empty_from.simps) auto
  next
    case True
    show ?thesis
    proof (cases "eles ! i = 0")
      case False
      with True show ?thesis by (subst empty_from.simps) auto
    next
      case z: True
      have "empty_from n eles i = empty_from n eles (Suc i)"
        using True z by (subst empty_from.simps) simp
      also have "\<dots> \<longleftrightarrow> (\<forall>j. Suc i \<le> j \<and> j < n \<longrightarrow> eles ! j = 0)"
        using 1 True z by simp
      also have "\<dots> \<longleftrightarrow> (\<forall>j. i \<le> j \<and> j < n \<longrightarrow> eles ! j = 0)"
        using z by (metis Suc_leI le_neq_implies_less Suc_leD)
      finally show ?thesis .
    qed
  qed
qed

lemma empty_fl_iff: "empty_fl n eles \<longleftrightarrow> (\<forall>j<n. eles ! j = 0)"
  by (simp add: empty_fl_def empty_from_iff)

lemma and_not_eq_0_iff: "(x :: u32) AND NOT y = 0 \<longleftrightarrow> (\<forall>j<32. bit x j \<longrightarrow> bit y j)"
  by (auto simp: bit_eq_iff bit_simps dest: bit_imp_le_length)

lemma features_le_bits:
  assumes "length a = n" "length b = n"
  shows "features_le n a b \<longleftrightarrow> bits_of a \<subseteq> bits_of b"
  using assms by (auto simp: features_le_iff and_not_eq_0_iff bits_of_def)

text \<open>
  Claim C2. For feature lists \<open>a\<close> and \<open>b\<close> of the same word count \<open>n\<close>,
  \<open>features_le a b\<close> is true exactly when \<open>(a & ~b)\<close> has no bit set (every word of
  it is zero, which is what \<open>empty()\<close> tests), that is, exactly when every bit set
  in \<open>a\<close> is set in \<open>b\<close>.
\<close>

theorem features_le_correct:
  assumes "length a = n" and "length b = n"
  shows "(features_le n a b \<longleftrightarrow> empty_fl n (feature_mask_and n a (feature_mask_not n b))) \<and>
         (features_le n a b \<longleftrightarrow> (\<forall>i<n. \<forall>j<32. bit (a ! i) j \<longrightarrow> bit (b ! i) j))"
proof
  show "features_le n a b \<longleftrightarrow> empty_fl n (feature_mask_and n a (feature_mask_not n b))"
    by (simp add: features_le_iff empty_fl_iff feature_mask_and_def feature_mask_not_def)
  show "features_le n a b \<longleftrightarrow> (\<forall>i<n. \<forall>j<32. bit (a ! i) j \<longrightarrow> bit (b ! i) j)"
    by (simp add: features_le_iff and_not_eq_0_iff)
qed

theorem features_le_correct_witness:
  "features_le 2 [5, 0] [7, 1] \<and> \<not> features_le 2 [5, 2] [7, 1]"
proof -
  have "empty_fl 2 (feature_mask_and 2 [5, 0] (feature_mask_not 2 [7, 1]))"
    by (simp add: empty_fl_iff feature_mask_and_def feature_mask_not_def less_Suc_eq
        numeral_2_eq_2)
  moreover have "\<not> empty_fl 2 (feature_mask_and 2 [5, 2] (feature_mask_not 2 [7, 1]))"
    by (simp add: empty_fl_iff feature_mask_and_def feature_mask_not_def less_Suc_eq
        numeral_2_eq_2)
  ultimately show ?thesis
    using features_le_correct [of "[5, 0]" 2 "[7, 1]"] features_le_correct [of "[5, 2]" 2 "[7, 1]"]
    by simp
qed

subsection \<open>Properties of the dependency closure\<close>

text \<open>
  Every edge of the table indexes a word of a feature list of \<open>n\<close> words. The C++
  code reads and writes \<^verbatim>\<open>bits[bitidx / 32]\<close> unchecked, so this is what a table
  has to satisfy for the walk to stay inside the array.
\<close>

definition deps_in_range :: "nat \<Rightarrow> FeatureDep list \<Rightarrow> bool" where
  "deps_in_range n deps =
     list_all (\<lambda>d. unat (feature d div 32) < n \<and> unat (dep d div 32) < n) deps"

lemma test_nbit_total: "unat (k div 32) < length fs \<Longrightarrow> \<exists>v. test_nbit fs k = Inr v"
  by (simp add: test_nbit_def Let_def)

lemma set_bit_fl_total:
  "unat (k div 32) < length fs \<Longrightarrow> \<exists>r. set_bit_fl fs k v = Inr r \<and> length r = length fs"
  by (simp add: set_bit_fl_def Let_def)

lemma unset_bits_total:
  "unat (k div 32) < length fs \<Longrightarrow> \<exists>r. unset_bits fs [k] = Inr r \<and> length r = length fs"
  by (simp add: Let_def)

lemma enable_pass_total:
  "deps_in_range (length fs) ds \<Longrightarrow> \<exists>r. enable_pass fs c ds = Inr r"
proof (induction ds arbitrary: fs c)
  case Nil
  then show ?case by simp
next
  case (Cons d ds)
  then have f: "unat (feature d div 32) < length fs" and g: "unat (dep d div 32) < length fs"
    and rest: "deps_in_range (length fs) ds"
    by (simp_all add: deps_in_range_def)
  from test_nbit_total[OF f] obtain v where v: "test_nbit fs (feature d) = Inr v" by blast
  from test_nbit_total[OF g] obtain w where w: "test_nbit fs (dep d) = Inr w" by blast
  from set_bit_fl_total[OF g] obtain fs1 where s: "set_bit_fl fs (dep d) True = Inr fs1"
    and l: "length fs1 = length fs" by blast
  from rest l have rest1: "deps_in_range (length fs1) ds" by simp
  show ?case
    using v w s Cons.IH[OF rest, of c] Cons.IH[OF rest1, of True]
    by (cases v; cases w) auto
qed

lemma disable_pass_total:
  "deps_in_range (length fs) ds \<Longrightarrow> \<exists>r. disable_pass fs c ds = Inr r"
proof (induction ds arbitrary: fs c)
  case Nil
  then show ?case by simp
next
  case (Cons d ds)
  then have f: "unat (feature d div 32) < length fs" and g: "unat (dep d div 32) < length fs"
    and rest: "deps_in_range (length fs) ds"
    by (simp_all add: deps_in_range_def)
  from test_nbit_total[OF f] obtain v where v: "test_nbit fs (feature d) = Inr v" by blast
  from test_nbit_total[OF g] obtain w where w: "test_nbit fs (dep d) = Inr w" by blast
  from unset_bits_total[OF f] obtain fs1 where s: "unset_bits fs [feature d] = Inr fs1"
    and l: "length fs1 = length fs" by blast
  from rest l have rest1: "deps_in_range (length fs1) ds" by simp
  show ?case
    using v w s Cons.IH[OF rest, of c] Cons.IH[OF rest1, of True]
    by (cases v; cases w) (auto simp del: unset_bits.simps)
qed

lemma deps_in_range_rev: "deps_in_range n (rev ds) = deps_in_range n ds"
  by (simp add: deps_in_range_def)

lemma enable_depends_total:
  "deps_in_range (length s) deps \<Longrightarrow> \<exists>r. enable_depends s deps = Inr r"
proof (induction s deps rule: enable_depends.induct)
  case (1 features deps)
  from enable_pass_total[of features "rev deps" False] "1.prems"
  obtain f' ch where p: "enable_pass features False (rev deps) = Inr (f', ch)"
    by (auto simp: deps_in_range_rev)
  show ?case
  proof (cases ch)
    case True
    from enable_pass_inv[OF p] "1.prems" have "deps_in_range (length f') deps" by simp
    from "1.IH"[OF p refl True this] obtain r where "enable_depends f' deps = Inr r" by blast
    with p True show ?thesis by (subst enable_depends.simps) simp
  next
    case False
    with p show ?thesis by (subst enable_depends.simps) simp
  qed
qed

lemma disable_depends_total:
  "deps_in_range (length s) deps \<Longrightarrow> \<exists>r. disable_depends s deps = Inr r"
proof (induction s deps rule: disable_depends.induct)
  case (1 features deps)
  from disable_pass_total[of features "rev deps" False] "1.prems"
  obtain f' ch where p: "disable_pass features False (rev deps) = Inr (f', ch)"
    by (auto simp: deps_in_range_rev)
  show ?case
  proof (cases ch)
    case True
    from disable_pass_inv[OF p] "1.prems" have "deps_in_range (length f') deps" by simp
    from "1.IH"[OF p refl True this] obtain r where "disable_depends f' deps = Inr r" by blast
    with p True show ?thesis by (subst disable_depends.simps) simp
  next
    case False
    with p show ?thesis by (subst disable_depends.simps) simp
  qed
qed

lemma enable_depends_result:
  "enable_depends s deps = Inr r \<Longrightarrow>
     length r = length s \<and> bits_of s \<subseteq> bits_of r \<and>
     enable_pass r False (rev deps) = Inr (r, False)"
proof (induction s deps rule: enable_depends.induct)
  case (1 features deps)
  from "1.prems" obtain f' ch where p: "enable_pass features False (rev deps) = Inr (f', ch)"
    by (subst (asm) enable_depends.simps) (auto split: sum.splits)
  note inv = enable_pass_inv[OF p]
  show ?case
  proof (cases ch)
    case True
    with p "1.prems" have "enable_depends f' deps = Inr r"
      by (subst (asm) enable_depends.simps) simp
    from "1.IH"[OF p refl True this] inv show ?thesis by auto
  next
    case False
    with p "1.prems" have "r = f'" by (subst (asm) enable_depends.simps) simp
    moreover from inv False have "f' = features" by simp
    ultimately show ?thesis using p False by simp
  qed
qed

lemma disable_depends_result:
  "disable_depends s deps = Inr r \<Longrightarrow>
     length r = length s \<and> bits_of r \<subseteq> bits_of s \<and>
     disable_pass r False (rev deps) = Inr (r, False)"
proof (induction s deps rule: disable_depends.induct)
  case (1 features deps)
  from "1.prems" obtain f' ch where p: "disable_pass features False (rev deps) = Inr (f', ch)"
    by (subst (asm) disable_depends.simps) (auto split: sum.splits)
  note inv = disable_pass_inv[OF p]
  show ?case
  proof (cases ch)
    case True
    with p "1.prems" have "disable_depends f' deps = Inr r"
      by (subst (asm) disable_depends.simps) simp
    from "1.IH"[OF p refl True this] inv show ?thesis by auto
  next
    case False
    with p "1.prems" have "r = f'" by (subst (asm) disable_depends.simps) simp
    moreover from inv False have "f' = features" by simp
    ultimately show ?thesis using p False by simp
  qed
qed

lemma enable_depends_fixed: "enable_depends s deps = Inr r \<Longrightarrow> enable_depends r deps = Inr r"
  using enable_depends_result[of s deps r] by (subst enable_depends.simps) simp

lemma disable_depends_fixed: "disable_depends s deps = Inr r \<Longrightarrow> disable_depends r deps = Inr r"
  using disable_depends_result[of s deps r] by (subst disable_depends.simps) simp

text \<open>
  Claim C3. For every feature list \<open>s\<close> and edge table, whatever \<open>enable_depends\<close>
  returns contains \<open>s\<close> (it only adds bits) and whatever \<open>disable_depends\<close> returns
  is contained in \<open>s\<close> (it only removes bits), with the subset test of the code,
  \<open>features_le\<close>. Both loops terminate, and they return a feature list whenever
  the edges index words of \<open>s\<close>.
\<close>

theorem depends_only_add_remove:
  "(\<forall>r. enable_depends s deps = Inr r \<longrightarrow> length r = length s \<and> features_le (length s) s r) \<and>
   (\<forall>r. disable_depends s deps = Inr r \<longrightarrow> length r = length s \<and> features_le (length s) r s) \<and>
   (deps_in_range (length s) deps \<longrightarrow>
      (\<exists>r. enable_depends s deps = Inr r) \<and> (\<exists>r. disable_depends s deps = Inr r))"
proof (intro conjI allI impI)
  fix r assume "enable_depends s deps = Inr r"
  from enable_depends_result[OF this] show "length r = length s" "features_le (length s) s r"
    by (simp_all add: features_le_bits)
next
  fix r assume "disable_depends s deps = Inr r"
  from disable_depends_result[OF this] show "length r = length s" "features_le (length s) r s"
    by (simp_all add: features_le_bits)
next
  assume "deps_in_range (length s) deps"
  then show "\<exists>r. enable_depends s deps = Inr r" "\<exists>r. disable_depends s deps = Inr r"
    by (rule enable_depends_total, rule disable_depends_total)
qed

text \<open>
  Claim C4. \<open>enable_depends\<close> is idempotent: applying it to its own result gives
  that result again, so doing it twice equals doing it once (an out-of-bounds failure
  of the first run is the outcome of both sides). The same holds for
  \<open>disable_depends\<close>. With edges in range both runs return a feature list.
\<close>

theorem depends_idempotent:
  "(case enable_depends s deps of Inl e \<Rightarrow> Inl e | Inr r \<Rightarrow> enable_depends r deps)
     = enable_depends s deps \<and>
   (case disable_depends s deps of Inl e \<Rightarrow> Inl e | Inr r \<Rightarrow> disable_depends r deps)
     = disable_depends s deps \<and>
   (deps_in_range (length s) deps \<longrightarrow>
      (\<exists>r. enable_depends s deps = Inr r \<and> enable_depends r deps = Inr r) \<and>
      (\<exists>r. disable_depends s deps = Inr r \<and> disable_depends r deps = Inr r))"
proof (intro conjI impI)
  show "(case enable_depends s deps of Inl e \<Rightarrow> Inl e | Inr r \<Rightarrow> enable_depends r deps)
     = enable_depends s deps"
    by (cases "enable_depends s deps") (simp_all add: enable_depends_fixed)
  show "(case disable_depends s deps of Inl e \<Rightarrow> Inl e | Inr r \<Rightarrow> disable_depends r deps)
     = disable_depends s deps"
    by (cases "disable_depends s deps") (simp_all add: disable_depends_fixed)
next
  assume r: "deps_in_range (length s) deps"
  from enable_depends_total[OF r] show "\<exists>r. enable_depends s deps = Inr r \<and> enable_depends r deps = Inr r"
    using enable_depends_fixed by blast
  from disable_depends_total[OF r] show "\<exists>r. disable_depends s deps = Inr r \<and> disable_depends r deps = Inr r"
    using disable_depends_fixed by blast
qed

text \<open>Unfolding rules for evaluating the bit operations on concrete inputs.\<close>

lemmas eval_bits = enable_depends.simps disable_depends.simps test_nbit_def set_bit_fl_def
  deps_in_range_def features_le_def features_le_from.simps

theorem depends_only_add_remove_witness:
  "enable_depends [5] [\<lparr>feature = 0, dep = 1\<rparr>, \<lparr>feature = 1, dep = 3\<rparr>] = Inr [15] \<and>
   features_le 1 [5] [15] \<and>
   disable_depends [5] [\<lparr>feature = 2, dep = 1\<rparr>, \<lparr>feature = 0, dep = 2\<rparr>] = Inr [0] \<and>
   features_le 1 [0] [5] \<and>
   deps_in_range 1 [\<lparr>feature = 0, dep = 1\<rparr>, \<lparr>feature = 1, dep = 3\<rparr>]"
proof -
  have e: "enable_depends [5] [\<lparr>feature = 0, dep = 1\<rparr>, \<lparr>feature = 1, dep = 3\<rparr>] = Inr [15]"
    by (simp add: eval_bits)
  have d: "disable_depends [5] [\<lparr>feature = 2, dep = 1\<rparr>, \<lparr>feature = 0, dep = 2\<rparr>] = Inr [0]"
    by (simp add: eval_bits)
  have r: "deps_in_range 1 [\<lparr>feature = 0, dep = 1\<rparr>, \<lparr>feature = 1, dep = 3\<rparr>]"
    by (simp add: deps_in_range_def)
  from depends_only_add_remove [where s = "[5]" and deps = "[\<lparr>feature = 0, dep = 1\<rparr>, \<lparr>feature = 1, dep = 3\<rparr>]"] e
  have 1: "features_le 1 [5] [15]" by simp
  from depends_only_add_remove [where s = "[5]" and deps = "[\<lparr>feature = 2, dep = 1\<rparr>, \<lparr>feature = 0, dep = 2\<rparr>]"] d
  have 2: "features_le 1 [0] [5]" by simp
  from e d r 1 2 show ?thesis by simp
qed

theorem depends_idempotent_witness:
  "deps_in_range 1 [\<lparr>feature = 0, dep = 1\<rparr>, \<lparr>feature = 1, dep = 3\<rparr>] \<and>
   enable_depends [5] [\<lparr>feature = 0, dep = 1\<rparr>, \<lparr>feature = 1, dep = 3\<rparr>] = Inr [15] \<and>
   enable_depends [15] [\<lparr>feature = 0, dep = 1\<rparr>, \<lparr>feature = 1, dep = 3\<rparr>] = Inr [15] \<and>
   disable_depends [5] [\<lparr>feature = 2, dep = 1\<rparr>, \<lparr>feature = 0, dep = 2\<rparr>] = Inr [0] \<and>
   disable_depends [0] [\<lparr>feature = 2, dep = 1\<rparr>, \<lparr>feature = 0, dep = 2\<rparr>] = Inr [0]"
proof -
  have e: "enable_depends [5] [\<lparr>feature = 0, dep = 1\<rparr>, \<lparr>feature = 1, dep = 3\<rparr>] = Inr [15]"
    by (simp add: eval_bits)
  have d: "disable_depends [5] [\<lparr>feature = 2, dep = 1\<rparr>, \<lparr>feature = 0, dep = 2\<rparr>] = Inr [0]"
    by (simp add: eval_bits)
  have r: "deps_in_range 1 [\<lparr>feature = 0, dep = 1\<rparr>, \<lparr>feature = 1, dep = 3\<rparr>]"
    by (simp add: deps_in_range_def)
  from depends_idempotent [where s = "[5]" and deps = "[\<lparr>feature = 0, dep = 1\<rparr>, \<lparr>feature = 1, dep = 3\<rparr>]"] e
  have 1: "enable_depends [15] [\<lparr>feature = 0, dep = 1\<rparr>, \<lparr>feature = 1, dep = 3\<rparr>] = Inr [15]"
    by simp
  from depends_idempotent [where s = "[5]" and deps = "[\<lparr>feature = 2, dep = 1\<rparr>, \<lparr>feature = 0, dep = 2\<rparr>]"] d
  have 2: "disable_depends [0] [\<lparr>feature = 2, dep = 1\<rparr>, \<lparr>feature = 0, dep = 2\<rparr>] = Inr [0]"
    by simp
  from e d r 1 2 show ?thesis by simp
qed

subsection \<open>The sentinel bit index\<close>

lemma sentinel_word_index: "unat ((0xFFFFFFFF :: u32) div 32) = 134217727"
  by simp

lemma test_nbit_Inl: "test_nbit fs k = Inl e \<Longrightarrow> e = OutOfBounds"
  by (simp add: test_nbit_def Let_def split: if_splits)

lemma set_bit_fl_Inl: "set_bit_fl fs k v = Inl e \<Longrightarrow> e = OutOfBounds"
  by (simp add: set_bit_fl_def Let_def split: if_splits)

lemma unset_bits_one_Inl: "unset_bits fs [k] = Inl e \<Longrightarrow> e = OutOfBounds"
  by (simp add: Let_def split: if_splits)

lemma test_nbit_sentinel:
  "length fs \<le> 134217727 \<Longrightarrow> test_nbit fs 0xFFFFFFFF = Inl OutOfBounds"
  by (simp add: test_nbit_def)

lemma enable_pass_sentinel:
  "length fs \<le> 134217727 \<Longrightarrow> d \<in> set ds \<Longrightarrow> feature d = 0xFFFFFFFF \<Longrightarrow>
     enable_pass fs c ds = Inl OutOfBounds"
proof (induction ds arbitrary: fs c)
  case Nil
  then show ?case by simp
next
  case (Cons x ds)
  show ?case
  proof (cases "x = d")
    case True
    with Cons.prems test_nbit_sentinel[of fs] show ?thesis by simp
  next
    case False
    with Cons.prems have mem: "d \<in> set ds" by simp
    note ih = Cons.IH[OF _ mem Cons.prems(3)]
    show ?thesis
    proof (cases "test_nbit fs (feature x)")
      case (Inl e)
      then show ?thesis using test_nbit_Inl[OF Inl] by simp
    next
      case v: (Inr v)
      show ?thesis
      proof (cases "test_nbit fs (dep x)")
        case (Inl e)
        then show ?thesis using v test_nbit_Inl[OF Inl] ih[OF Cons.prems(1)] by (cases v) simp_all
      next
        case w: (Inr w)
        show ?thesis
        proof (cases "set_bit_fl fs (dep x) True")
          case (Inl e)
          then show ?thesis using v w set_bit_fl_Inl[OF Inl] ih[OF Cons.prems(1)]
            by (cases v; cases w) simp_all
        next
          case (Inr fs1)
          from set_bit_fl_True[OF Inr] Cons.prems(1) have "length fs1 \<le> 134217727" by simp
          from ih[OF this] ih[OF Cons.prems(1)] show ?thesis using v w Inr
            by (cases v; cases w) simp_all
        qed
      qed
    qed
  qed
qed

lemma disable_pass_sentinel:
  "length fs \<le> 134217727 \<Longrightarrow> d \<in> set ds \<Longrightarrow> feature d = 0xFFFFFFFF \<Longrightarrow>
     disable_pass fs c ds = Inl OutOfBounds"
proof (induction ds arbitrary: fs c)
  case Nil
  then show ?case by simp
next
  case (Cons x ds)
  show ?case
  proof (cases "x = d")
    case True
    with Cons.prems test_nbit_sentinel[of fs] show ?thesis by simp
  next
    case False
    with Cons.prems have mem: "d \<in> set ds" by simp
    note ih = Cons.IH[OF _ mem Cons.prems(3)]
    show ?thesis
    proof (cases "test_nbit fs (feature x)")
      case (Inl e)
      then show ?thesis using test_nbit_Inl[OF Inl] by simp
    next
      case v: (Inr v)
      show ?thesis
      proof (cases "test_nbit fs (dep x)")
        case (Inl e)
        then show ?thesis using v test_nbit_Inl[OF Inl] ih[OF Cons.prems(1)] by (cases v) simp_all
      next
        case w: (Inr w)
        show ?thesis
        proof (cases "unset_bits fs [feature x]")
          case (Inl e)
          then show ?thesis using v w unset_bits_one_Inl[OF Inl] ih[OF Cons.prems(1)]
            by (cases v; cases w) (simp_all del: unset_bits.simps)
        next
          case (Inr fs1)
          from unset_bits_one[OF Inr] Cons.prems(1) have "length fs1 \<le> 134217727" by simp
          from ih[OF this] ih[OF Cons.prems(1)] show ?thesis using v w Inr
            by (cases v; cases w) (simp_all del: unset_bits.simps)
        qed
      qed
    qed
  qed
qed

lemma test_nbit_eq:
  "test_nbit fs k =
     (if unat (k div 32) < length fs
      then Inr (bit (fs ! unat (k div 32)) (unat (k mod 32))) else Inl OutOfBounds)"
  using pos_lt[of k] by (simp add: test_nbit_def Let_def and_exp_eq_0_iff_not_bit pos_def)

lemma set_bit_fl_test:
  assumes "unat (i div 32) < length bits" and "set_bit_fl bits i v = Inr r"
  shows "test_nbit r k = (if pos k = pos i then Inr v else test_nbit bits k)"
proof -
  have b: "unat (i mod 32) < 32" "unat (k mod 32) < 32"
    using pos_lt[of i] pos_lt[of k] by (simp_all add: pos_def)
  from assms have r: "r = bits[unat (i div 32) :=
      (if v then (bits ! unat (i div 32)) OR push_bit (unat (i mod 32)) 1
       else (bits ! unat (i div 32)) AND NOT (push_bit (unat (i mod 32)) 1))]"
    by (auto simp: set_bit_fl_def Let_def)
  show ?thesis
    using assms(1) b unfolding r
    by (auto simp: test_nbit_eq pos_def nth_list_update bit_simps)
qed

lemma unset_bits_test:
  assumes "unat (i div 32) < length bits" and "unset_bits bits [i] = Inr r"
  shows "test_nbit r k = (if pos k = pos i then Inr False else test_nbit bits k)"
proof -
  have b: "unat (i mod 32) < 32" "unat (k mod 32) < 32"
    using pos_lt[of i] pos_lt[of k] by (simp_all add: pos_def)
  from assms have r: "r = bits[unat (i div 32) :=
      (bits ! unat (i div 32)) AND NOT (push_bit (unat (i mod 32)) 1)]"
    by (auto simp: Let_def)
  show ?thesis
    using assms(1) b unfolding r
    by (auto simp: test_nbit_eq pos_def nth_list_update bit_simps)
qed

text \<open>
  Claim C5, which fails on the code: the bit operations carry no check for the
  sentinel. Amended: \<open>test_nbit\<close>, \<open>set_bit\<close> and \<open>unset_bits\<close> access word
  \<open>bitidx / 32\<close> unchecked; for an index whose word lies inside the list they read or
  update bit \<open>bitidx % 32\<close> of that word, and for the index \<open>uint32::MAX\<close> the word
  index is \<open>134217727\<close>, outside every feature list of at most that many words, so
  the access is out of bounds, also in a dependency walk over an edge whose feature is
  the sentinel. Only the mask constructor \<open>add_feature_mask_u32\<close> skips the sentinel.
\<close>

theorem sentinel_out_of_bounds:
  "(unat (i div 32) < length bits \<longrightarrow>
      test_nbit bits i = Inr (bit (bits ! unat (i div 32)) (unat (i mod 32))) \<and>
      (\<exists>r. set_bit_fl bits i v = Inr r \<and> length r = length bits \<and>
           (\<forall>k. test_nbit r k = (if pos k = pos i then Inr v else test_nbit bits k))) \<and>
      (\<exists>r. unset_bits bits [i] = Inr r \<and> length r = length bits \<and>
           (\<forall>k. test_nbit r k = (if pos k = pos i then Inr False else test_nbit bits k)))) \<and>
   (length bits \<le> 134217727 \<longrightarrow>
      test_nbit bits 0xFFFFFFFF = Inl OutOfBounds \<and>
      set_bit_fl bits 0xFFFFFFFF v = Inl OutOfBounds \<and>
      unset_bits bits (0xFFFFFFFF # rest) = Inl OutOfBounds \<and>
      ((\<exists>d \<in> set deps. feature d = 0xFFFFFFFF) \<longrightarrow>
         enable_depends bits deps = Inl OutOfBounds \<and>
         disable_depends bits deps = Inl OutOfBounds)) \<and>
   add_feature_mask_u32 m u (-1 # args) = add_feature_mask_u32 m u args"
proof (intro conjI impI)
  assume r: "unat (i div 32) < length bits"
  show "test_nbit bits i = Inr (bit (bits ! unat (i div 32)) (unat (i mod 32)))"
    using r by (simp add: test_nbit_eq)
  show "\<exists>r. set_bit_fl bits i v = Inr r \<and> length r = length bits \<and>
           (\<forall>k. test_nbit r k = (if pos k = pos i then Inr v else test_nbit bits k))"
    using r set_bit_fl_total[OF r, of v] set_bit_fl_test[OF r] by blast
  show "\<exists>r. unset_bits bits [i] = Inr r \<and> length r = length bits \<and>
           (\<forall>k. test_nbit r k = (if pos k = pos i then Inr False else test_nbit bits k))"
    using r unset_bits_total[OF r] unset_bits_test[OF r] by blast
next
  assume l: "length bits \<le> 134217727"
  then show "test_nbit bits 0xFFFFFFFF = Inl OutOfBounds" by (rule test_nbit_sentinel)
  from l show "set_bit_fl bits 0xFFFFFFFF v = Inl OutOfBounds" by (simp add: set_bit_fl_def)
  from l show "unset_bits bits (0xFFFFFFFF # rest) = Inl OutOfBounds" by simp
  assume "\<exists>d \<in> set deps. feature d = 0xFFFFFFFF"
  then obtain d where d: "d \<in> set (rev deps)" "feature d = 0xFFFFFFFF" by auto
  from enable_pass_sentinel[OF l d] show "enable_depends bits deps = Inl OutOfBounds"
    by (subst enable_depends.simps) simp
  from disable_pass_sentinel[OF l d] show "disable_depends bits deps = Inl OutOfBounds"
    by (subst disable_depends.simps) simp
next
  show "add_feature_mask_u32 m u (-1 # args) = add_feature_mask_u32 m u args" by simp
qed

theorem sentinel_out_of_bounds_witness:
  "test_nbit [4] 2 = Inr True \<and> test_nbit [0] 0xFFFFFFFF = Inl OutOfBounds \<and>
   enable_depends [4] [\<lparr>feature = 0xFFFFFFFF, dep = 1\<rparr>] = Inl OutOfBounds"
proof -
  note a = sentinel_out_of_bounds [where i = 2 and bits = "[4]" and v = True and rest = "[]"
      and deps = "[\<lparr>feature = 0xFFFFFFFF, dep = 1\<rparr>]" and m = 0 and u = 0 and args = "[]"]
  note b = sentinel_out_of_bounds [where i = 2 and bits = "[0]" and v = True and rest = "[]"
      and deps = "[\<lparr>feature = 0xFFFFFFFF, dep = 1\<rparr>]" and m = 0 and u = 0 and args = "[]"]
  have 1: "test_nbit [4] 2 = Inr True"
    using a [THEN conjunct1] by simp
  have 2: "test_nbit [0] 0xFFFFFFFF = Inl OutOfBounds"
    using b [THEN conjunct2, THEN conjunct1] by simp
  have 3: "enable_depends [4] [\<lparr>feature = 0xFFFFFFFF, dep = 1\<rparr>] = Inl OutOfBounds"
    using a [THEN conjunct2, THEN conjunct1] by simp
  from 1 2 3 show ?thesis by simp
qed

theorem sentinel_counterexample:
  "test_nbit [0] 0xFFFFFFFF \<noteq> Inr False \<and>
   set_bit_fl [0] 0xFFFFFFFF True \<noteq> Inr [0] \<and>
   unset_bits [0] [0xFFFFFFFF] \<noteq> Inr [0] \<and>
   test_nbit [0] 0xFFFFFFFF = Inl OutOfBounds \<and>
   set_bit_fl [0] 0xFFFFFFFF True = Inl OutOfBounds \<and>
   unset_bits [0] [0xFFFFFFFF] = Inl OutOfBounds \<and>
   enable_depends [1] [\<lparr>feature = 0, dep = 0xFFFFFFFF\<rparr>] = Inl OutOfBounds \<and>
   disable_depends [1] [\<lparr>feature = 0xFFFFFFFF, dep = 0\<rparr>] = Inl OutOfBounds"
  by (simp add: eval_bits)

section \<open>The target-spec parser (lines 429-585)\<close>

subsection \<open>\<^verbatim>\<open>TargetData<n>\<close>\<close>

text \<open>The anonymous struct of \<^verbatim>\<open>en\<close> and \<^verbatim>\<open>dis\<close>: a feature list and a flag word.\<close>

record feature_flags =
  features :: "u32 list"
  flags :: u32

record TargetData =
  name :: string
  ext_features :: string
  en :: feature_flags
  dis :: feature_flags
  base :: int

text \<open>
  Modelled from the spec: \<^verbatim>\<open>JL_TARGET_CLONE_ALL\<close> is declared in
  \<^verbatim>\<open>processor.h\<close>, which is not among the sources; the spec says the flag words
  are bit fields whose only defined bit is \<open>CLONE_ALL\<close>. It is taken as bit 0.
\<close>

definition JL_TARGET_CLONE_ALL :: u32 where
  "JL_TARGET_CLONE_ALL = 1"

text \<open>\<^verbatim>\<open>TargetData<n> arg{}\<close>: empty strings, zeroed feature lists and flags, base 0.\<close>

definition empty_target :: "nat \<Rightarrow> TargetData" where
  "empty_target n =
     \<lparr>name = [], ext_features = [],
      en = \<lparr>features = replicate n 0, flags = 0\<rparr>,
      dis = \<lparr>features = replicate n 0, flags = 0\<rparr>, base = 0\<rparr>"

subsection \<open>\<^verbatim>\<open>find_feature_bit\<close> (lines 384-394)\<close>

text \<open>
  A \<^verbatim>\<open>FeatureName\<close> is the triple of name, bit and llvmver. The token
  \<^verbatim>\<open>(str, len)\<close> is passed as the string of its \<open>len\<close> characters; a table name
  matches when it equals the token. No match gives \<open>(uint32_t)-1\<close>.
\<close>

type_synonym FeatureName = "string \<times> u32 \<times> u32"

fun find_feature_bit :: "FeatureName list \<Rightarrow> string \<Rightarrow> u32" where
  "find_feature_bit [] str = 0xFFFFFFFF"
| "find_feature_bit ((nm, b, llvmver) # rest) str =
     (if nm = str then b else find_feature_bit rest str)"

text \<open>
  The feature callback of \<^verbatim>\<open>parse_cmdline\<close> is a parameter: it gets the token and
  the feature list to update, and answers whether it knew the token.

  Modelled from the spec: the callbacks themselves are in the per-architecture files,
  which are not among the sources. \<open>lookup_feature_cb\<close> is the callback the spec
  describes (look the token up as a known feature; if found, set its bit), over a given
  table; with the empty table it knows no feature.
\<close>

type_synonym feature_cb = "string \<Rightarrow> u32 list \<Rightarrow> error + (bool \<times> u32 list)"

definition lookup_feature_cb :: "FeatureName list \<Rightarrow> feature_cb" where
  "lookup_feature_cb table str list =
     (let fbit = find_feature_bit table str
      in if fbit = 0xFFFFFFFF then Inr (False, list)
         else (case set_bit_fl list fbit True of
                 Inl e \<Rightarrow> Inl e
               | Inr list' \<Rightarrow> Inr (True, list')))"

subsection \<open>\<^verbatim>\<open>get_clone_base\<close> (lines 474-493)\<close>

text \<open>
  The token is the character range from \<^verbatim>\<open>start\<close> to \<^verbatim>\<open>end\<close>, passed as a
  string; \<^verbatim>\<open>*end\<close> is the separator that ended the token (a comma, a semicolon or
  NUL), so a read at \<^verbatim>\<open>end\<close> never sees a digit or a parenthesis.

  \<^verbatim>\<open>strtol\<close> is called on a digit, so it reads the maximal run of decimal digits
  and leaves \<^verbatim>\<open>digit_end\<close> behind it. Its result is a \<^verbatim>\<open>long\<close>, taken as 64
  bits wide (LP64): a larger value gives \<^verbatim>\<open>LONG_MAX\<close>. The cast \<^verbatim>\<open>(int)idx\<close>
  keeps the low 32 bits as a signed number; the addition of 1 overflows (undefined in
  C++) only at \<^verbatim>\<open>INT_MAX\<close>.
\<close>

definition is_digit :: "char \<Rightarrow> bool" where
  "is_digit c = (48 \<le> (of_char c :: nat) \<and> (of_char c :: nat) \<le> 57)"

definition digit_value :: "string \<Rightarrow> int" where
  "digit_value ds = foldl (\<lambda>a c. 10 * a + (int (of_char c) - 48)) 0 ds"

definition LONG_MAX :: int where
  "LONG_MAX = 2 ^ 63 - 1"

definition strtol :: "string \<Rightarrow> int \<times> string" where
  "strtol s = (min (digit_value (takeWhile is_digit s)) LONG_MAX, dropWhile is_digit s)"

definition int32_of :: "int \<Rightarrow> int" where
  "int32_of v = (v + 2 ^ 31) mod 2 ^ 32 - 2 ^ 31"

definition get_clone_base :: "string \<Rightarrow> error + int" where
  "get_clone_base tok =
     (if length tok \<le> 5 then Inr 0
      else if take 5 tok \<noteq> ''base('' then Inr 0
      else let start = drop 5 tok in
        if \<not> is_digit (hd start) then Inr 0
        else let (idx, digit_end) = strtol start in
          if idx < 0 then Inr 0
          else (case digit_end of
                  [] \<Rightarrow> Inr 0
                | c # after \<Rightarrow>
                    if c \<noteq> CHR '')'' \<or> after \<noteq> [] then Inr 0
                    else if int32_of idx = 2147483647 then Inl SignedOverflow
                    else Inr (int32_of idx + 1)))"

subsection \<open>\<^verbatim>\<open>parse_cmdline\<close> (lines 495-585)\<close>

text \<open>The lambda \<^verbatim>\<open>reset_arg\<close>: it pushes the target and clears all of it but \<^verbatim>\<open>base\<close>.\<close>

definition reset_arg :: "nat \<Rightarrow> TargetData list \<Rightarrow> TargetData \<Rightarrow> TargetData list \<times> TargetData" where
  "reset_arg n res arg =
     (res @ [arg],
      arg\<lparr>name := [], ext_features := [],
          en := \<lparr>features = replicate n 0, flags = 0\<rparr>,
          dis := \<lparr>features = replicate n 0, flags = 0\<rparr>\<rparr>)"

text \<open>The sign of a token (lines 531-541): \<^verbatim>\<open>disable\<close> and \<^verbatim>\<open>fname\<close>.\<close>

definition split_sign :: "string \<Rightarrow> bool \<times> string" where
  "split_sign full =
     (case full of
        [] \<Rightarrow> (False, full)
      | c # cs \<Rightarrow>
          if c = CHR ''-'' then (True, cs)
          else if c = CHR ''+'' then (False, cs)
          else (False, full))"

text \<open>The last branch (lines 565-573): a feature the callback knows, or an unknown one.\<close>

definition feature_token :: "feature_cb \<Rightarrow> TargetData \<Rightarrow> bool \<Rightarrow> string \<Rightarrow> error + TargetData" where
  "feature_token cb arg disable fname =
     (case cb fname (features (if disable then dis arg else en arg)) of
        Inl e \<Rightarrow> Inl e
      | Inr (known, list) \<Rightarrow>
          (let arg1 = (if disable then arg\<lparr>dis := (dis arg)\<lparr>features := list\<rparr>\<rparr>
                       else arg\<lparr>en := (en arg)\<lparr>features := list\<rparr>\<rparr>)
           in if \<not> known
              then Inr (arg1\<lparr>ext_features :=
                          (if ext_features arg1 \<noteq> [] then ext_features arg1 @ '','' else [])
                          @ (if disable then ''-'' else ''+'') @ fname\<rparr>)
              else Inr arg1))"

text \<open>
  One comma-delimited token after the CPU name (lines 531-573). \<^verbatim>\<open>res[base]\<close> is
  an unchecked vector access; an index outside the vector is \<open>OutOfBounds\<close>.
\<close>

definition parse_token :: "feature_cb \<Rightarrow> TargetData list \<Rightarrow> TargetData \<Rightarrow> string \<Rightarrow> error + TargetData" where
  "parse_token cb res arg full =
     (let (disable, fname) = split_sign full in
      if fname = ''clone_all'' then
        (if \<not> disable
         then Inr (arg\<lparr>en := (en arg)\<lparr>flags := flags (en arg) OR JL_TARGET_CLONE_ALL\<rparr>,
                       dis := (dis arg)\<lparr>flags := flags (dis arg) AND NOT JL_TARGET_CLONE_ALL\<rparr>\<rparr>)
         else Inr (arg\<lparr>dis := (dis arg)\<lparr>flags := flags (dis arg) OR JL_TARGET_CLONE_ALL\<rparr>,
                       en := (en arg)\<lparr>flags := flags (en arg) AND NOT JL_TARGET_CLONE_ALL\<rparr>\<rparr>))
      else
        (case get_clone_base fname of
           Inl e \<Rightarrow> Inl e
         | Inr b \<Rightarrow>
             if b \<noteq> 0 then
               (if disable then Inl (JlError ''Invalid target option: disabled base index.'')
                else let b1 = b - 1 in
                  if b1 \<ge> int32_of (int (length res))
                  then Inl (JlError ''Invalid target option: base index must refer to a previous target.'')
                  else if b1 < 0 \<or> nat b1 \<ge> length res then Inl OutOfBounds
                  else if flags (dis (res ! nat b1)) AND JL_TARGET_CLONE_ALL \<noteq> 0 \<or>
                          \<not> (flags (en (res ! nat b1)) AND JL_TARGET_CLONE_ALL \<noteq> 0)
                  then Inl (JlError ''Invalid target option: base target must be clone_all.'')
                  else Inr (arg\<lparr>base := b1\<rparr>))
             else feature_token cb arg disable fname))"

text \<open>
  The character \<^verbatim>\<open>*p\<close> of the NUL-terminated option string: position
  \<open>length option\<close> holds the terminator.
\<close>

definition cstr_at :: "string \<Rightarrow> nat \<Rightarrow> char" where
  "cstr_at s p = (if p < length s then s ! p else CHR 0x00)"

text \<open>
  The \<^verbatim>\<open>for (p = option; ; p++)\<close> loop. \<open>start\<close> and \<open>p\<close> are offsets into the
  option string. The loop ends at the terminator, which is the termination argument.
\<close>

function parse_loop ::
  "nat \<Rightarrow> feature_cb \<Rightarrow> string \<Rightarrow> TargetData list \<Rightarrow> TargetData \<Rightarrow> nat \<Rightarrow> nat
     \<Rightarrow> error + TargetData list" where
  "parse_loop n cb opt res arg start p =
     (if cstr_at opt p = CHR '','' \<or> cstr_at opt p = CHR '';'' \<or> cstr_at opt p = CHR 0x00 then
        (if name arg = [] then
           (if p = start then Inl (JlError ''Invalid target option: empty CPU name'')
            else
              (case (if cstr_at opt p = CHR '';'' \<or> cstr_at opt p = CHR 0x00
                     then reset_arg n res (arg\<lparr>name := take (p - start) (drop start opt)\<rparr>)
                     else (res, arg\<lparr>name := take (p - start) (drop start opt)\<rparr>)) of
                 (res1, arg1) \<Rightarrow>
                   if cstr_at opt p = CHR 0x00 then Inr res1
                   else parse_loop n cb opt res1 arg1 (p + 1) (p + 1)))
         else
           (case parse_token cb res arg (take (p - start) (drop start opt)) of
              Inl e \<Rightarrow> Inl e
            | Inr arg0 \<Rightarrow>
                (case (if cstr_at opt p = CHR '';'' \<or> cstr_at opt p = CHR 0x00
                       then reset_arg n res arg0 else (res, arg0)) of
                   (res1, arg1) \<Rightarrow>
                     if cstr_at opt p = CHR 0x00 then Inr res1
                     else parse_loop n cb opt res1 arg1 (p + 1) (p + 1))))
      else parse_loop n cb opt res arg start (p + 1))"
  by pat_completeness auto
termination
  by (relation "measure (\<lambda>(n, cb, opt, res, arg, start, p). Suc (length opt) - p)")
     (auto simp: cstr_at_def split: if_splits)

declare parse_loop.simps [simp del]

text \<open>A null \<^verbatim>\<open>option\<close> pointer is \<open>None\<close>.\<close>

definition parse_cmdline :: "nat \<Rightarrow> feature_cb \<Rightarrow> string option \<Rightarrow> error + TargetData list" where
  "parse_cmdline n cb option =
     (case option of
        None \<Rightarrow> Inr []
      | Some opt \<Rightarrow> parse_loop n cb opt [] (empty_target n) 0 0)"

subsection \<open>Properties of the parser\<close>

text \<open>Unfolding rules for running the parser on a concrete option string.\<close>

lemmas eval_parse = parse_cmdline_def parse_loop.simps cstr_at_def parse_token_def split_sign_def
  get_clone_base_def feature_token_def reset_arg_def empty_target_def lookup_feature_cb_def
  strtol_def is_digit_def digit_value_def LONG_MAX_def int32_of_def JL_TARGET_CLONE_ALL_def



text \<open>
  The malformed \<open>base(\<close> tokens claim C7 speaks of: the token begins with \<open>base(\<close>,
  and then a non-digit stands where the index should be, or the digits are not followed
  by exactly one closing parenthesis at the end of the token.
\<close>

definition malformed_base_token :: "string \<Rightarrow> bool" where
  "malformed_base_token fname =
     (take 5 fname = ''base('' \<and>
      (drop 5 fname = [] \<or> \<not> is_digit (hd (drop 5 fname)) \<or>
       dropWhile is_digit (drop 5 fname) \<noteq> '')''))"

text \<open>
  Claim C7, which fails on the code. Amended: a token that begins with \<open>base(\<close>
  but is malformed raises no parse error. \<open>get_clone_base\<close> answers 0 (no match) and
  \<open>parse_cmdline\<close> treats the token as a feature name: it goes to the feature callback
  and, when the callback does not know it, to \<open>ext_features\<close> with its sign.
\<close>

theorem malformed_base_is_feature:
  assumes "malformed_base_token fname" and "split_sign full = (disable, fname)"
  shows "get_clone_base fname = Inr 0 \<and>
         parse_token cb res arg full = feature_token cb arg disable fname \<and>
         (cb fname (features (if disable then dis arg else en arg)) = Inr (False, list) \<longrightarrow>
            (\<exists>arg'. parse_token cb res arg full = Inr arg' \<and>
               ext_features arg' =
                 (if ext_features arg = [] then [] else ext_features arg @ '','')
                 @ (if disable then ''-'' else ''+'') @ fname))"
proof -
  from assms(1) have g: "get_clone_base fname = Inr 0"
    by (auto simp: malformed_base_token_def get_clone_base_def strtol_def Let_def
        split: list.splits)
  from assms(1) have c: "fname \<noteq> ''clone_all''"
    by (auto simp: malformed_base_token_def)
  from g c assms(2) have p: "parse_token cb res arg full = feature_token cb arg disable fname"
    by (simp add: parse_token_def)
  show ?thesis using g p by (cases disable) (simp_all add: feature_token_def)
qed

theorem malformed_base_is_feature_witness:
  "get_clone_base ''base(1x)'' = Inr 0 \<and>
   (\<exists>arg'. parse_token (lookup_feature_cb []) [] (empty_target 1) ''base(1x)'' = Inr arg' \<and>
      ext_features arg' = ''+base(1x)'')"
proof -
  have m: "malformed_base_token ''base(1x)''"
    by (simp add: malformed_base_token_def is_digit_def)
  have s: "split_sign ''base(1x)'' = (False, ''base(1x)'')"
    by (simp add: split_sign_def)
  have c: "lookup_feature_cb [] ''base(1x)'' [0] = Inr (False, [0])"
    by (simp add: lookup_feature_cb_def)
  note t = malformed_base_is_feature [OF m s, where cb = "lookup_feature_cb []" and res = "[]"
      and arg = "empty_target 1" and list = "[0]"]
  from t [THEN conjunct2, THEN conjunct2] c
  have "\<exists>arg'. parse_token (lookup_feature_cb []) [] (empty_target 1) ''base(1x)'' = Inr arg' \<and>
      ext_features arg' = ''+base(1x)''"
    by (auto simp: empty_target_def)
  with t [THEN conjunct1] show ?thesis by blast
qed

theorem malformed_base_counterexample:
  "parse_cmdline 1 (lookup_feature_cb []) (Some ''generic,base(x),base(1,base(1)x'') =
     Inr [\<lparr>name = ''generic'', ext_features = ''+base(x),+base(1,+base(1)x'',
           en = \<lparr>features = [0], flags = 0\<rparr>,
           dis = \<lparr>features = [0], flags = 0\<rparr>, base = 0\<rparr>]"
  by (simp add: eval_parse)

text \<open>
  Claim C6, at the input where the code departs from it: \<open>base(4294967296)\<close> in target
  1 names no previous target, and the code accepts it as \<open>base(0)\<close>, since
  \<^verbatim>\<open>(int)idx\<close> keeps the low 32 bits of the \<^verbatim>\<open>long\<close> that \<^verbatim>\<open>strtol\<close>
  returned. This holds for every word count and every feature callback (the two tokens
  never reach the callback).
\<close>

theorem base_index_truncated:
  "parse_cmdline n cb (Some ''generic,clone_all;haswell,base(4294967296)'') =
     Inr [\<lparr>name = ''generic'', ext_features = [],
           en = \<lparr>features = replicate n 0, flags = JL_TARGET_CLONE_ALL\<rparr>,
           dis = \<lparr>features = replicate n 0, flags = 0\<rparr>, base = 0\<rparr>,
          \<lparr>name = ''haswell'', ext_features = [],
           en = \<lparr>features = replicate n 0, flags = 0\<rparr>,
           dis = \<lparr>features = replicate n 0, flags = 0\<rparr>, base = 0\<rparr>]"
  by (simp add: eval_parse)

section \<open>Serialized target data (lines 396-472)\<close>

text \<open>
  Sequencing of fallible steps: the first error ends the computation.
\<close>

definition and_then :: "error + 'a \<Rightarrow> ('a \<Rightarrow> error + 'b) \<Rightarrow> error + 'b" where
  "and_then m f = (case m of Inl e \<Rightarrow> Inl e | Inr x \<Rightarrow> f x)"

text \<open>
  \<^verbatim>\<open>memcpy\<close> of a \<^verbatim>\<open>uint32_t\<close> to and from bytes, in the byte order of the host,
  taken little-endian (x86, ARM).
\<close>

definition u32_bytes :: "u32 \<Rightarrow> u8 list" where
  "u32_bytes w = [ucast w, ucast (drop_bit 8 w), ucast (drop_bit 16 w), ucast (drop_bit 24 w)]"

definition bytes_u32 :: "u8 list \<Rightarrow> u32" where
  "bytes_u32 bs =
     ucast (bs ! 0) OR push_bit 8 (ucast (bs ! 1)) OR push_bit 16 (ucast (bs ! 2))
       OR push_bit 24 (ucast (bs ! 3))"

text \<open>
  \<^verbatim>\<open>strlen\<close> of a \<^verbatim>\<open>const char *\<close>: the characters before the first NUL. A
  string without a NUL character is terminated at its end.
\<close>

definition strlen :: "string \<Rightarrow> nat" where
  "strlen s = length (takeWhile (\<lambda>c. c \<noteq> CHR 0x00) s)"

text \<open>
  \<^verbatim>\<open>add_data(p, sz)\<close> appends \<open>sz\<close> bytes read from \<open>p\<close>; reading more bytes than
  the source array holds is out of bounds.
\<close>

definition add_data :: "u8 list \<Rightarrow> u8 list \<Rightarrow> nat \<Rightarrow> error + u8 list" where
  "add_data res src sz = (if sz \<le> length src then Inr (res @ take sz src) else Inl OutOfBounds)"

text \<open>
  \<^verbatim>\<open>serialize_target_data\<close> (lines 396-418). \<^verbatim>\<open>4 * nfeature\<close> is computed in
  \<^verbatim>\<open>uint32_t\<close>; \<^verbatim>\<open>namelen\<close> and \<^verbatim>\<open>ext_features_len\<close> are \<^verbatim>\<open>uint32_t\<close>.
\<close>

definition serialize_target_data ::
  "string \<Rightarrow> u32 \<Rightarrow> u32 list \<Rightarrow> u32 list \<Rightarrow> string \<Rightarrow> error + u8 list" where
  "serialize_target_data nm nfeature features_en features_dis ext =
     and_then (add_data [] (u32_bytes nfeature) 4) (\<lambda>res.
     and_then (add_data res (concat (map u32_bytes features_en)) (unat (4 * nfeature))) (\<lambda>res.
     and_then (add_data res (concat (map u32_bytes features_dis)) (unat (4 * nfeature))) (\<lambda>res.
     let namelen = (of_nat (strlen nm) :: u32) in
     and_then (add_data res (u32_bytes namelen) 4) (\<lambda>res.
     and_then (add_data res (map of_char nm) (unat namelen)) (\<lambda>res.
     let ext_features_len = (of_nat (strlen ext) :: u32) in
     and_then (add_data res (u32_bytes ext_features_len) 4) (\<lambda>res.
     add_data res (map of_char ext) (unat ext_features_len)))))))"

text \<open>The overload for \<^verbatim>\<open>FeatureList<n>\<close> (lines 420-427).\<close>

definition serialize_target_data_n ::
  "nat \<Rightarrow> string \<Rightarrow> u32 list \<Rightarrow> u32 list \<Rightarrow> string \<Rightarrow> error + u8 list" where
  "serialize_target_data_n n nm features_en features_dis ext =
     serialize_target_data nm (of_nat n) features_en features_dis ext"

text \<open>
  \<^verbatim>\<open>deserialize_target_data\<close> (lines 440-472). The cursor \<^verbatim>\<open>data\<close> is the list of
  bytes not yet read; the C++ code does not know where the blob ends, so a read past
  its end is out of bounds.
\<close>

definition load_u32 :: "u8 list \<Rightarrow> error + (u32 \<times> u8 list)" where
  "load_u32 data =
     (if 4 \<le> length data then Inr (bytes_u32 (take 4 data), drop 4 data) else Inl OutOfBounds)"

fun load_words :: "nat \<Rightarrow> u8 list \<Rightarrow> error + (u32 list \<times> u8 list)" where
  "load_words 0 data = Inr ([], data)"
| "load_words (Suc k) data =
     and_then (load_u32 data) (\<lambda>(w, data).
     and_then (load_words k data) (\<lambda>(ws, data). Inr (w # ws, data)))"

definition load_string :: "u8 list \<Rightarrow> error + (string \<times> u8 list)" where
  "load_string data =
     and_then (load_u32 data) (\<lambda>(len, data).
       if unat len \<le> length data
       then Inr (map (\<lambda>b. char_of (unat b)) (take (unat len) data), drop (unat len) data)
       else Inl OutOfBounds)"

text \<open>The loop over the targets, on the number of targets still to read.\<close>

fun deserialize_targets :: "nat \<Rightarrow> nat \<Rightarrow> u8 list \<Rightarrow> error + TargetData list" where
  "deserialize_targets n 0 data = Inr []"
| "deserialize_targets n (Suc k) data =
     and_then (load_u32 data) (\<lambda>(en_flags, data).
     and_then (load_u32 data) (\<lambda>(nfeature, data).
       if unat nfeature \<noteq> n then Inl (AssertFailed ''nfeature == n'')
       else
     and_then (load_words n data) (\<lambda>(en_features, data).
     and_then (load_words n data) (\<lambda>(dis_features, data).
     and_then (load_string data) (\<lambda>(nm, data).
     and_then (load_string data) (\<lambda>(ext, data).
     and_then (deserialize_targets n k data) (\<lambda>rest.
       Inr (\<lparr>name = nm, ext_features = ext,
              en = \<lparr>features = en_features, flags = en_flags\<rparr>,
              dis = \<lparr>features = dis_features, flags = 0\<rparr>, base = 0\<rparr> # rest))))))))"

definition deserialize_target_data :: "nat \<Rightarrow> u8 list \<Rightarrow> error + TargetData list" where
  "deserialize_target_data n data =
     and_then (load_u32 data) (\<lambda>(ntarget, data). deserialize_targets n (unat ntarget) data)"


lemma bytes_u32_u32_bytes: "bytes_u32 (u32_bytes w) = w"
proof (rule bit_word_eqI)
  fix n assume "n < LENGTH(32)"
  then have n: "n < 32" by simp
  consider "n < 8" | "8 \<le> n" "n < 16" | "16 \<le> n" "n < 24" | "24 \<le> n" by linarith
  then show "bit (bytes_u32 (u32_bytes w)) n = bit w n"
    using n by cases (auto simp: bytes_u32_def u32_bytes_def bit_simps)
qed

lemma char_of_byte_of_char: "char_of (unat (of_char c :: u8)) = c"
proof -
  have "(of_char c :: u8) = of_nat (of_char c)" by (simp add: of_nat_of_char)
  then have "unat (of_char c :: u8) = of_char c mod 256" by (simp add: unat_of_nat)
  then show ?thesis by simp
qed

subsection \<open>Properties of the serialization\<close>

lemma length_u32_bytes: "length (u32_bytes w) = 4"
  by (simp add: u32_bytes_def)

lemma length_concat_u32_bytes: "length (concat (map u32_bytes ws)) = 4 * length ws"
  by (induction ws) (simp_all add: length_u32_bytes)

lemma load_u32_append: "load_u32 (u32_bytes w @ rest) = Inr (w, rest)"
  by (simp add: load_u32_def length_u32_bytes bytes_u32_u32_bytes)

lemma load_words_append:
  "load_words (length ws) (concat (map u32_bytes ws) @ rest) = Inr (ws, rest)"
  by (induction ws) (simp_all add: load_u32_append and_then_def)

lemma of_nat_u32_unat: "k < 2 ^ 32 \<Longrightarrow> unat (of_nat k :: u32) = k"
  by (simp add: unat_of_nat)

lemma load_string_append:
  assumes "length s < 2 ^ 32"
  shows "load_string (u32_bytes (of_nat (length s)) @ map of_char s @ rest) = Inr (s, rest)"
proof -
  have "map (\<lambda>b. char_of (unat b)) (map of_char s :: u8 list) = s"
    by (simp add: comp_def char_of_byte_of_char)
  then show ?thesis
    using assms
    by (simp add: load_string_def load_u32_append and_then_def of_nat_u32_unat)
qed

lemma strlen_no_NUL: "CHR 0x00 \<notin> set s \<Longrightarrow> strlen s = length s"
  by (induction s) (auto simp: strlen_def)

lemma unat_4_times: "n < 2 ^ 30 \<Longrightarrow> unat (4 * of_nat n :: u32) = 4 * n"
proof -
  assume n: "n < 2 ^ 30"
  have "(4 * of_nat n :: u32) = of_nat (4 * n)" by simp
  moreover from n have "4 * n < 2 ^ 32" by simp
  ultimately show ?thesis by (simp only: of_nat_u32_unat)
qed

lemma serialize_target_data_n_eq:
  assumes "length features_en = n" and "length features_dis = n" and "n < 2 ^ 30"
    and "CHR 0x00 \<notin> set nm" and "CHR 0x00 \<notin> set ext"
    and "length nm < 2 ^ 32" and "length ext < 2 ^ 32"
  shows "serialize_target_data_n n nm features_en features_dis ext =
     Inr (u32_bytes (of_nat n) @ concat (map u32_bytes features_en)
          @ concat (map u32_bytes features_dis)
          @ u32_bytes (of_nat (length nm)) @ map of_char nm
          @ u32_bytes (of_nat (length ext)) @ map of_char ext)"
  using assms
  by (simp add: serialize_target_data_n_def serialize_target_data_def and_then_def
      add_data_def length_u32_bytes length_concat_u32_bytes unat_4_times strlen_no_NUL
      of_nat_u32_unat Let_def del: of_nat_mult)

text \<open>
  Claim C9, which fails for a name with a NUL character. Amended: for every
  \<open>TargetData\<close> \<open>T\<close> of \<open>n\<close> feature words whose \<open>name\<close> and \<open>ext_features\<close>
  are C strings (no NUL character, shorter than \<open>2^32\<close>), and \<open>n < 2^30\<close>, the
  serialization succeeds, and deserializing the blob made of the target count 1, the
  word \<open>en.flags\<close> and the serialization gives exactly \<open>T\<close> with \<open>dis.flags\<close> and
  \<open>base\<close> set to 0.
\<close>

theorem serialize_round_trip:
  assumes "length (features (en T)) = n" and "length (features (dis T)) = n" and "n < 2 ^ 30"
    and "CHR 0x00 \<notin> set (name T)" and "CHR 0x00 \<notin> set (ext_features T)"
    and "length (name T) < 2 ^ 32" and "length (ext_features T) < 2 ^ 32"
  shows "\<exists>blob. serialize_target_data_n n (name T) (features (en T)) (features (dis T))
                  (ext_features T) = Inr blob \<and>
           deserialize_target_data n (u32_bytes 1 @ u32_bytes (flags (en T)) @ blob) =
             Inr [T\<lparr>dis := (dis T)\<lparr>flags := 0\<rparr>, base := 0\<rparr>]"
proof -
  let ?blob = "u32_bytes (of_nat n) @ concat (map u32_bytes (features (en T)))
          @ concat (map u32_bytes (features (dis T)))
          @ u32_bytes (of_nat (length (name T))) @ map of_char (name T)
          @ u32_bytes (of_nat (length (ext_features T))) @ map of_char (ext_features T)"
  have s: "serialize_target_data_n n (name T) (features (en T)) (features (dis T))
                  (ext_features T) = Inr ?blob"
    using assms by (rule serialize_target_data_n_eq)
  have n32: "n < 2 ^ 32" using assms(3) by simp
  have w1: "load_words n (concat (map u32_bytes (features (en T))) @ r) = Inr (features (en T), r)" for r
    using load_words_append[of "features (en T)" r] assms(1) by simp
  have w2: "load_words n (concat (map u32_bytes (features (dis T))) @ r) = Inr (features (dis T), r)" for r
    using load_words_append[of "features (dis T)" r] assms(2) by simp
  have s1: "load_string (u32_bytes (of_nat (length (name T))) @ map of_char (name T) @ r) = Inr (name T, r)" for r
    using assms(6) by (rule load_string_append)
  have s2: "load_string (u32_bytes (of_nat (length (ext_features T))) @ map of_char (ext_features T) @ r)
      = Inr (ext_features T, r)" for r
    using assms(7) by (rule load_string_append)
  have s2': "load_string (u32_bytes (of_nat (length (ext_features T))) @ map of_char (ext_features T))
      = Inr (ext_features T, [])"
    using s2[of "[]"] by simp
  have "deserialize_targets n (Suc 0) (u32_bytes (flags (en T)) @ ?blob) =
      Inr [\<lparr>name = name T, ext_features = ext_features T,
            en = \<lparr>features = features (en T), flags = flags (en T)\<rparr>,
            dis = \<lparr>features = features (dis T), flags = 0\<rparr>, base = 0\<rparr>]"
    using n32 by (simp add: and_then_def load_u32_append w1 w2 s1 s2' of_nat_u32_unat)
  moreover have "\<lparr>name = name T, ext_features = ext_features T,
            en = \<lparr>features = features (en T), flags = flags (en T)\<rparr>,
            dis = \<lparr>features = features (dis T), flags = 0\<rparr>, base = 0\<rparr>
      = T\<lparr>dis := (dis T)\<lparr>flags := 0\<rparr>, base := 0\<rparr>"
    by (cases T; cases "en T"; cases "dis T") simp
  ultimately have "deserialize_target_data n (u32_bytes 1 @ u32_bytes (flags (en T)) @ ?blob) =
             Inr [T\<lparr>dis := (dis T)\<lparr>flags := 0\<rparr>, base := 0\<rparr>]"
    by (simp add: deserialize_target_data_def and_then_def load_u32_append)
  with s show ?thesis by blast
qed

text \<open>Unfolding rules for running the serializer on concrete inputs.\<close>

lemmas eval_serialize = serialize_target_data_n_def serialize_target_data_def add_data_def
  and_then_def u32_bytes_def strlen_def deserialize_target_data_def load_u32_def bytes_u32_def
  load_string_def char_of_def bit_iff_odd

theorem serialize_round_trip_witness:
  "\<exists>blob. serialize_target_data_n 1 ''hi'' [5] [2] ''+x'' = Inr blob \<and>
     deserialize_target_data 1 (u32_bytes 1 @ u32_bytes 1 @ blob) =
       Inr [\<lparr>name = ''hi'', ext_features = ''+x'', en = \<lparr>features = [5], flags = 1\<rparr>,
             dis = \<lparr>features = [2], flags = 0\<rparr>, base = 0\<rparr>]"
  using serialize_round_trip [where n = 1 and T = "\<lparr>name = ''hi'', ext_features = ''+x'',
      en = \<lparr>features = [5], flags = 1\<rparr>, dis = \<lparr>features = [2], flags = 7\<rparr>, base = 3\<rparr>"]
  by simp

theorem serialize_round_trip_counterexample:
  "serialize_target_data_n 1 [CHR ''a'', CHR 0x00, CHR ''b''] [0] [0] [] =
     Inr [1, 0, 0, 0, 0, 0, 0, 0, 0, 0, 0, 0, 1, 0, 0, 0, 97, 0, 0, 0, 0] \<and>
   deserialize_target_data 1 (u32_bytes 1 @ u32_bytes 0 @
       [1, 0, 0, 0, 0, 0, 0, 0, 0, 0, 0, 0, 1, 0, 0, 0, 97, 0, 0, 0, 0]) =
     Inr [\<lparr>name = ''a'', ext_features = [], en = \<lparr>features = [0], flags = 0\<rparr>,
           dis = \<lparr>features = [0], flags = 0\<rparr>, base = 0\<rparr>] \<and>
   [CHR ''a'', CHR 0x00, CHR ''b''] \<noteq> ''a''"
  by (simp add: eval_serialize)

lemma deserialize_targets_defaults:
  "deserialize_targets n k data = Inr ts \<Longrightarrow> \<forall>t \<in> set ts. flags (dis t) = 0 \<and> base t = 0"
proof (induction k arbitrary: data ts)
  case 0
  then show ?case by simp
next
  case (Suc k)
  from Suc.prems obtain t rest d where ts: "ts = t # rest" and t: "flags (dis t) = 0" "base t = 0"
    and r: "deserialize_targets n k d = Inr rest"
    by (auto simp: and_then_def split: sum.splits prod.splits if_splits)
  from Suc.IH[OF r] ts t show ?case by simp
qed

text \<open>
  Claim C10. A null option pointer gives the empty target list and no error; and
  whatever bytes \<open>deserialize_target_data\<close> is given, every target it returns has
  \<open>dis.flags = 0\<close> and \<open>base = 0\<close>.
\<close>

theorem null_option_and_restored_defaults:
  "parse_cmdline n cb None = Inr [] \<and>
   (\<forall>ts. deserialize_target_data n data = Inr ts \<longrightarrow>
      (\<forall>t \<in> set ts. flags (dis t) = 0 \<and> base t = 0))"
proof (intro conjI allI impI)
  show "parse_cmdline n cb None = Inr []" by (simp add: parse_cmdline_def)
next
  fix ts assume "deserialize_target_data n data = Inr ts"
  then obtain k d where "deserialize_targets n k d = Inr ts"
    by (auto simp: deserialize_target_data_def and_then_def split: sum.splits prod.splits)
  then show "\<forall>t \<in> set ts. flags (dis t) = 0 \<and> base t = 0"
    by (rule deserialize_targets_defaults)
qed

theorem null_option_and_restored_defaults_witness:
  "parse_cmdline 1 (lookup_feature_cb []) None = Inr [] \<and>
   (\<exists>t. deserialize_target_data 1
     [1, 0, 0, 0, 1, 0, 0, 0, 1, 0, 0, 0, 5, 0, 0, 0, 2, 0, 0, 0, 2, 0, 0, 0, 104, 105, 2, 0, 0, 0, 43, 120]
       = Inr [t] \<and> flags (dis t) = 0 \<and> base t = 0)"
proof -
  let ?data = "[1, 0, 0, 0, 1, 0, 0, 0, 1, 0, 0, 0, 5, 0, 0, 0, 2, 0, 0, 0, 2, 0, 0, 0, 104, 105,
     2, 0, 0, 0, 43, 120] :: u8 list"
  let ?t = "\<lparr>name = ''hi'', ext_features = ''+x'', en = \<lparr>features = [5], flags = 1\<rparr>,
         dis = \<lparr>features = [2], flags = 0\<rparr>, base = 0\<rparr>"
  note c = null_option_and_restored_defaults [where n = 1 and cb = "lookup_feature_cb []"
      and data = ?data]
  have e: "deserialize_target_data 1 ?data = Inr [?t]"
    by (simp add: eval_serialize)
  from c [THEN conjunct2] e have "flags (dis ?t) = 0 \<and> base ?t = 0" by simp
  with e c [THEN conjunct1] show ?thesis by blast
qed

section \<open>The sysimg dispatch loader (lines 595-689)\<close>

text \<open>
  The loaded image, as \<^verbatim>\<open>jl_dlsym\<close> resolves it: the two anchors are addresses, the
  other symbols are arrays of 32-bit words (bytes for the target ids). A read outside an
  array is \<open>OutOfBounds\<close>. Signed entries (\<^verbatim>\<open>int32_t\<close>) are read with \<open>sint\<close>.
\<close>

record sysimg =
  jl_sysimg_gvars_base :: int
  jl_sysimg_fvars_base :: int
  jl_sysimg_fvars_offsets :: "u32 list"
  jl_dispatch_target_ids :: "u8 list"
  jl_dispatch_reloc_slots :: "u32 list"
  jl_dispatch_fvars_idxs :: "u32 list"
  jl_dispatch_fvars_offsets :: "u32 list"

definition rd :: "u32 list \<Rightarrow> nat \<Rightarrow> error + u32" where
  "rd xs i = (if i < length xs then Inr (xs ! i) else Inl OutOfBounds)"

text \<open>
  A \<^verbatim>\<open>const int32_t *\<close> of the loader points into \<^verbatim>\<open>jl_sysimg_fvars_offsets\<close> or
  into \<^verbatim>\<open>jl_dispatch_fvars_offsets\<close>, at a word index.
\<close>

datatype offsets_ptr = Fvars nat | Clone nat

definition deref :: "sysimg \<Rightarrow> offsets_ptr \<Rightarrow> nat \<Rightarrow> error + u32" where
  "deref img p k =
     (case p of
        Fvars b \<Rightarrow> rd (jl_sysimg_fvars_offsets img) (b + k)
      | Clone b \<Rightarrow> rd (jl_dispatch_fvars_offsets img) (b + k))"

text \<open>
  Modelled from the spec: \<^verbatim>\<open>jl_sysimg_fptrs_t\<close> is declared in \<^verbatim>\<open>processor.h\<close>,
  which is not among the sources; the fields are the ones \<^verbatim>\<open>parse_sysimg\<close> sets
  (the spec's FnPtrs result). The two clone pointers are word indices into the dispatch
  streams, \<open>None\<close> for \<^verbatim>\<open>nullptr\<close>.
\<close>

record jl_sysimg_fptrs_t =
  res_base :: int
  res_offsets :: offsets_ptr
  res_nclones :: u32
  res_clone_offsets :: "nat option"
  res_clone_idxs :: "nat option"

definition tag_mask :: u32 where
  "tag_mask = 0x80000000"

definition val_mask :: u32 where
  "val_mask = NOT tag_mask"

text \<open>
  The loop that finds the target (lines 621-634). \<open>clone_idxs\<close> and \<open>clone_offsets\<close>
  are the two cursors, as word indices into their streams.
\<close>

function find_target ::
  "sysimg \<Rightarrow> nat \<Rightarrow> nat \<Rightarrow> nat \<Rightarrow> u32 \<Rightarrow> nat \<Rightarrow> nat \<Rightarrow> offsets_ptr option list
     \<Rightarrow> error + (u32 \<times> nat \<times> nat \<times> offsets_ptr option list)" where
  "find_target img nfunc target_idx i tag_len clone_idxs clone_offsets base_offsets =
     (if i < target_idx then
        (let len = unat (val_mask AND tag_len);
             clone_offsets1 = (if tag_mask AND tag_len \<noteq> 0
                               then (if i \<noteq> 0 then clone_offsets + nfunc else clone_offsets)
                               else clone_offsets + len);
             clone_idxs1 = (if tag_mask AND tag_len \<noteq> 0
                            then clone_idxs + (len + 1) else clone_idxs + (len + 2))
         in case rd (jl_dispatch_fvars_idxs img) (clone_idxs1 - 1) of
              Inl e \<Rightarrow> Inl e
            | Inr tag_len1 \<Rightarrow>
                find_target img nfunc target_idx (i + 1) tag_len1 clone_idxs1 clone_offsets1
                  (base_offsets @
                     [if tag_len1 AND tag_mask \<noteq> 0 then Some (Clone clone_offsets1) else None]))
      else Inr (tag_len, clone_idxs, clone_offsets, base_offsets))"
  by pat_completeness auto
termination
  by (relation "measure (\<lambda>(img, nfunc, target_idx, i, r). target_idx - i)") auto

declare find_target.simps [simp del]

text \<open>
  What the relocation pass needs of the selected target: the result record, the tag
  word and the two cursors after the selection (lines 614-655). \<open>select_target\<close> is the
  part of \<^verbatim>\<open>parse_sysimg\<close> from the first tag word to the filled-in result.
\<close>

record selection =
  sel_res :: jl_sysimg_fptrs_t
  sel_tag_len :: u32
  sel_clone_idxs :: nat
  sel_clone_offsets :: nat

definition select_target :: "sysimg \<Rightarrow> u32 \<Rightarrow> u32 \<Rightarrow> error + selection" where
  "select_target img nfunc target_idx =
     (let res = \<lparr>res_base = jl_sysimg_fvars_base img, res_offsets = Fvars 1, res_nclones = 0,
                 res_clone_offsets = None, res_clone_idxs = None\<rparr> in
      and_then (rd (jl_dispatch_fvars_idxs img) 0) (\<lambda>tag_len.
      if \<not> (tag_len AND tag_mask \<noteq> 0) then Inl (AssertFailed ''tag_len & tag_mask'')
      else
      and_then (find_target img (unat nfunc) (unat target_idx) 0 tag_len 1 0 [Some (res_offsets res)])
        (\<lambda>(tag_len, clone_idxs, clone_offsets, base_offsets).
      if tag_len AND tag_mask \<noteq> 0 then
        Inr \<lparr>sel_res = (if target_idx \<noteq> 0 then res\<lparr>res_offsets := Clone clone_offsets\<rparr> else res),
             sel_tag_len = tag_len, sel_clone_idxs = clone_idxs, sel_clone_offsets = clone_offsets\<rparr>
      else
        and_then (rd (jl_dispatch_fvars_idxs img) clone_idxs) (\<lambda>base_idx.
        if \<not> base_idx < target_idx then Inl (AssertFailed ''base_idx < target_idx'')
        else if unat base_idx \<ge> length base_offsets then Inl OutOfBounds
        else (case (if target_idx \<noteq> 0 then base_offsets ! unat base_idx
                    else Some (res_offsets res)) of
                None \<Rightarrow> Inl (AssertFailed ''res.offsets'')
              | Some offsets \<Rightarrow>
                  Inr \<lparr>sel_res = res\<lparr>res_offsets := offsets, res_nclones := tag_len,
                                       res_clone_offsets := Some clone_offsets,
                                       res_clone_idxs := Some (clone_idxs + 1)\<rparr>,
                       sel_tag_len = tag_len, sel_clone_idxs = clone_idxs + 1,
                       sel_clone_offsets = clone_offsets\<rparr>)))))"

text \<open>
  Entry \<open>reloc_i\<close> of the reloc-slot table: \<^verbatim>\<open>reloc_slots\<close> points one word into
  the symbol (the count comes first), and the indices \<^verbatim>\<open>reloc_i * 2\<close> and
  \<^verbatim>\<open>reloc_i * 2 + 1\<close> are computed in \<^verbatim>\<open>uint32_t\<close>.
\<close>

definition reloc_idx_pos :: "nat \<Rightarrow> nat" where
  "reloc_idx_pos reloc_i = 1 + (reloc_i * 2) mod 2 ^ 32"

definition reloc_off_pos :: "nat \<Rightarrow> nat" where
  "reloc_off_pos reloc_i = 1 + (reloc_i * 2 + 1) mod 2 ^ 32"

text \<open>
  The GOT lives in the data section, which is modelled byte by byte: a map from a byte
  address to the byte stored there. A slot is a \<^verbatim>\<open>const void *\<close> object of
  \<^verbatim>\<open>sizeof(void*)\<close> bytes, taken as 8 (LP64, as for \<^verbatim>\<open>long\<close> above), in the byte
  order of the host, taken little-endian. The store \<^verbatim>\<open>*slot = p\<close> writes the
  \<open>sizeof_ptr\<close> bytes of \<open>p\<close> from the slot's address on, so two slots whose
  addresses are less than a pointer apart overlap.
\<close>

type_synonym got = "int \<rightharpoonup> u8"

definition sizeof_ptr :: nat where
  "sizeof_ptr = 8"

fun store_bytes :: "got \<Rightarrow> int \<Rightarrow> int \<Rightarrow> nat \<Rightarrow> got" where
  "store_bytes mem a v 0 = mem"
| "store_bytes mem a v (Suc k) = store_bytes (mem(a \<mapsto> word_of_int v)) (a + 1) (v div 256) k"

fun load_bytes :: "got \<Rightarrow> int \<Rightarrow> nat \<Rightarrow> int option" where
  "load_bytes mem a 0 = Some 0"
| "load_bytes mem a (Suc k) =
     (case mem a of
        None \<Rightarrow> None
      | Some b \<Rightarrow>
          (case load_bytes mem (a + 1) k of
             None \<Rightarrow> None
           | Some v \<Rightarrow> Some (uint b + 256 * v)))"

text \<open>
  \<open>store_ptr\<close> is the store of a pointer into a slot; \<open>load_ptr\<close> reads the pointer a
  slot holds (\<open>None\<close> when a byte of it was never written).
\<close>

definition store_ptr :: "got \<Rightarrow> int \<Rightarrow> int \<Rightarrow> got" where
  "store_ptr mem a p = store_bytes mem a p sizeof_ptr"

definition load_ptr :: "got \<Rightarrow> int \<Rightarrow> int option" where
  "load_ptr mem a = load_bytes mem a sizeof_ptr"

text \<open>The value of a pointer object that was assigned the address \<open>p\<close>.\<close>

definition ptr_value :: "int \<Rightarrow> int" where
  "ptr_value p = p mod 256 ^ sizeof_ptr"

lemma store_bytes_other:
  "x < a \<or> a + int k \<le> x \<Longrightarrow> store_bytes mem a v k x = mem x"
  by (induction k arbitrary: mem a v) auto


lemma load_store_bytes:
  "load_bytes (store_bytes mem a v k) a k = Some (v mod 256 ^ k)"
proof (induction k arbitrary: mem a v)
  case 0
  then show ?case by simp
next
  case (Suc k)
  let ?m1 = "mem(a \<mapsto> (word_of_int v :: u8))"
  have here: "store_bytes ?m1 (a + 1) (v div 256) k a = Some (word_of_int v)"
    by (simp add: store_bytes_other)
  have rest: "load_bytes (store_bytes ?m1 (a + 1) (v div 256) k) (a + 1) k
      = Some ((v div 256) mod 256 ^ k)"
    by (rule Suc.IH)
  have u: "uint (word_of_int v :: u8) = v mod 256"
    by (simp add: uint_word_of_int)
  have "v mod 256 + 256 * ((v div 256) mod 256 ^ k) = v mod 256 ^ Suc k"
    using zmod_zmult2_eq[of "256 ^ k" v 256] by simp
  with here rest u show ?case by simp
qed

lemma load_store_ptr: "load_ptr (store_ptr mem a p) a = Some (ptr_value p)"
  by (simp add: load_ptr_def store_ptr_def ptr_value_def load_store_bytes)



text \<open>The inner \<^verbatim>\<open>for\<close> loop (lines 673-683) for one cloned function.\<close>

function find_slot ::
  "sysimg \<Rightarrow> nat \<Rightarrow> u32 \<Rightarrow> int \<Rightarrow> nat \<Rightarrow> bool \<Rightarrow> got \<Rightarrow> error + (nat \<times> bool \<times> got)" where
  "find_slot img nreloc idx target reloc_i found mem =
     (if reloc_i < nreloc then
        (case rd (jl_dispatch_reloc_slots img) (reloc_idx_pos reloc_i) of
           Inl e \<Rightarrow> Inl e
         | Inr reloc_idx \<Rightarrow>
             if reloc_idx = idx then
               (case rd (jl_dispatch_reloc_slots img) (reloc_off_pos reloc_i) of
                  Inl e \<Rightarrow> Inl e
                | Inr data_offset \<Rightarrow>
                    find_slot img nreloc idx target (reloc_i + 1) True
                      (store_ptr mem (jl_sysimg_gvars_base img + sint data_offset) target))
             else if reloc_idx > idx then Inr (reloc_i, found, mem)
             else find_slot img nreloc idx target (reloc_i + 1) found mem)
      else Inr (reloc_i, found, mem))"
  by pat_completeness auto
termination
  by (relation "measure (\<lambda>(img, nreloc, idx, target, reloc_i, r). nreloc - reloc_i)") auto

declare find_slot.simps [simp del]

text \<open>
  What iteration \<open>i\<close> of the relocation loop clones (lines 660-671): the function index
  and its code offset, or \<open>None\<close> for an entry of a sparse target without the tag.
\<close>

definition clone_entry :: "sysimg \<Rightarrow> selection \<Rightarrow> nat \<Rightarrow> error + (u32 \<times> u32) option" where
  "clone_entry img sel i =
     and_then (rd (jl_dispatch_fvars_idxs img) (sel_clone_idxs sel + i)) (\<lambda>idx.
     if sel_tag_len sel AND tag_mask \<noteq> 0 then
       and_then (deref img (res_offsets (sel_res sel)) (unat idx)) (\<lambda>offset. Inr (Some (idx, offset)))
     else if idx AND tag_mask \<noteq> 0 then
       and_then (rd (jl_dispatch_fvars_offsets img) (sel_clone_offsets sel + i))
         (\<lambda>offset. Inr (Some (idx AND val_mask, offset)))
     else Inr None)"

text \<open>
  The relocation loop (lines 657-686). \<^verbatim>\<open>assert(found)\<close> is taken as checked, as
  in a build with assertions enabled: a cloned function without a GOT entry ends the
  loader. (With assertions compiled out the loop would go on to the next function.)
\<close>

function relocate ::
  "sysimg \<Rightarrow> selection \<Rightarrow> nat \<Rightarrow> nat \<Rightarrow> nat \<Rightarrow> nat \<Rightarrow> got \<Rightarrow> error + got" where
  "relocate img sel nreloc len i reloc_i mem =
     (if i < len then
        (case clone_entry img sel i of
           Inl e \<Rightarrow> Inl e
         | Inr None \<Rightarrow> relocate img sel nreloc len (i + 1) reloc_i mem
         | Inr (Some (idx, offset)) \<Rightarrow>
             (case find_slot img nreloc idx (sint offset + res_base (sel_res sel)) reloc_i False mem of
                Inl e \<Rightarrow> Inl e
              | Inr (reloc_i1, found, mem1) \<Rightarrow>
                  if \<not> found
                  then Inl (AssertFailed ''Cannot find GOT entry for cloned function.'')
                  else relocate img sel nreloc len (i + 1) reloc_i1 mem1))
      else Inr mem)"
  by pat_completeness auto
termination
  by (relation "measure (\<lambda>(img, sel, nreloc, len, i, r). len - i)") auto

declare relocate.simps [simp del]

text \<open>
  \<^verbatim>\<open>parse_sysimg\<close>. The callback gets the target ids and answers the target index
  (or fails). The data section is passed in and returned.
\<close>

definition parse_sysimg ::
  "sysimg \<Rightarrow> (u8 list \<Rightarrow> error + u32) \<Rightarrow> got \<Rightarrow> error + (jl_sysimg_fptrs_t \<times> got)" where
  "parse_sysimg img callback mem =
     and_then (rd (jl_sysimg_fvars_offsets img) 0) (\<lambda>nfunc.
     and_then (callback (jl_dispatch_target_ids img)) (\<lambda>target_idx.
     and_then (rd (jl_dispatch_reloc_slots img) 0) (\<lambda>nreloc.
     and_then (select_target img nfunc target_idx) (\<lambda>sel.
     and_then (relocate img sel (unat nreloc) (unat (val_mask AND sel_tag_len sel)) 0 0 mem)
       (\<lambda>mem1. Inr (sel_res sel, mem1))))))"

text \<open>Unfolding rules for running the loader on a concrete image.\<close>

lemmas eval_sysimg = parse_sysimg_def select_target_def find_target.simps relocate.simps
  find_slot.simps clone_entry_def deref_def rd_def and_then_def tag_mask_def val_mask_def
  reloc_idx_pos_def reloc_off_pos_def

subsection \<open>Relocation coverage\<close>

text \<open>
  Entry \<open>j\<close> of the reloc-slot table: its function index, its data offset, the
  address of its GOT slot and the bytes the slot occupies.
\<close>

definition reloc_idx_at :: "sysimg \<Rightarrow> nat \<Rightarrow> u32" where
  "reloc_idx_at img j = jl_dispatch_reloc_slots img ! reloc_idx_pos j"

definition reloc_off_at :: "sysimg \<Rightarrow> nat \<Rightarrow> u32" where
  "reloc_off_at img j = jl_dispatch_reloc_slots img ! reloc_off_pos j"

definition slot_addr :: "sysimg \<Rightarrow> nat \<Rightarrow> int" where
  "slot_addr img j = jl_sysimg_gvars_base img + sint (reloc_off_at img j)"



text \<open>The entry of a function index in the table: the first one that names it.\<close>

definition reloc_lookup :: "sysimg \<Rightarrow> nat \<Rightarrow> u32 \<Rightarrow> nat option" where
  "reloc_lookup img nreloc idx = find (\<lambda>j. reloc_idx_at img j = idx) [0..<nreloc]"












lemma upt_0_2: "[0..<(2::nat)] = [0, 1]"
  by (simp add: upt_rec)



text \<open>
  The image of the spec's loader scenario: target 0 is the default target (CLONE_ALL,
  eight functions), target 1 is sparse over base 0 and overrides functions 3 and 7; the
  GOT slots of functions 3 and 7 are at data offsets 0 and 8.
\<close>

definition sparse_sysimg :: sysimg where
  "sparse_sysimg =
     \<lparr>jl_sysimg_gvars_base = 5000, jl_sysimg_fvars_base = 100000,
      jl_sysimg_fvars_offsets = [8, 0, 16, 32, 48, 64, 80, 96, 112],
      jl_dispatch_target_ids = [],
      jl_dispatch_reloc_slots = [2, 3, 0, 7, 8],
      jl_dispatch_fvars_idxs = [0x80000000, 2, 0, 0x80000003, 0x80000007],
      jl_dispatch_fvars_offsets = [1000, 2000]\<rparr>"


text \<open>
  The same image with the second GOT slot at data offset 4, half a pointer after the
  first.
\<close>

definition overlap_sysimg :: sysimg where
  "overlap_sysimg = sparse_sysimg\<lparr>jl_dispatch_reloc_slots := [2, 3, 0, 7, 4]\<rparr>"

definition sparse_selection :: selection where
  "sparse_selection =
     \<lparr>sel_res = \<lparr>res_base = 100000, res_offsets = Fvars 1, res_nclones = 2,
                 res_clone_offsets = Some 0, res_clone_idxs = Some 3\<rparr>,
      sel_tag_len = 2, sel_clone_idxs = 3, sel_clone_offsets = 0\<rparr>"





section \<open>Further properties\<close>

subsection \<open>The closures are closed\<close>

lemma enable_pass_stable:
  "enable_pass fs c ds = Inr (fs', False) \<Longrightarrow>
     \<forall>d \<in> set ds. test_nbit fs (feature d) = Inr True \<longrightarrow> test_nbit fs (dep d) = Inr True"
proof (induction ds arbitrary: c)
  case Nil
  then show ?case by simp
next
  case (Cons x ds)
  show ?case
  proof (cases "test_nbit fs (feature x)")
    case (Inl e)
    with Cons.prems show ?thesis by simp
  next
    case v: (Inr v)
    show ?thesis
    proof (cases v)
      case False
      with v Cons.prems have "enable_pass fs c ds = Inr (fs', False)" by simp
      from Cons.IH[OF this] v False show ?thesis by simp
    next
      case True
      show ?thesis
      proof (cases "test_nbit fs (dep x)")
        case (Inl e)
        with v True Cons.prems show ?thesis by simp
      next
        case w: (Inr w)
        show ?thesis
        proof (cases w)
          case True
          with v w \<open>v\<close> Cons.prems have "enable_pass fs c ds = Inr (fs', False)" by simp
          from Cons.IH[OF this] w True show ?thesis by simp
        next
          case False
          with v w \<open>v\<close> Cons.prems obtain fs1 where "enable_pass fs1 True ds = Inr (fs', False)"
            by (auto split: sum.splits)
          from enable_pass_inv[OF this] show ?thesis by simp
        qed
      qed
    qed
  qed
qed

lemma disable_pass_stable:
  "disable_pass fs c ds = Inr (fs', False) \<Longrightarrow>
     \<forall>d \<in> set ds. test_nbit fs (feature d) = Inr True \<longrightarrow> test_nbit fs (dep d) = Inr True"
proof (induction ds arbitrary: c)
  case Nil
  then show ?case by simp
next
  case (Cons x ds)
  show ?case
  proof (cases "test_nbit fs (feature x)")
    case (Inl e)
    with Cons.prems show ?thesis by simp
  next
    case v: (Inr v)
    show ?thesis
    proof (cases v)
      case False
      with v Cons.prems have "disable_pass fs c ds = Inr (fs', False)" by simp
      from Cons.IH[OF this] v False show ?thesis by simp
    next
      case True
      show ?thesis
      proof (cases "test_nbit fs (dep x)")
        case (Inl e)
        with v True Cons.prems show ?thesis by simp
      next
        case w: (Inr w)
        show ?thesis
        proof (cases w)
          case True
          with v w \<open>v\<close> Cons.prems have "disable_pass fs c ds = Inr (fs', False)" by simp
          from Cons.IH[OF this] w True show ?thesis by simp
        next
          case False
          with v w \<open>v\<close> Cons.prems obtain fs1 where "disable_pass fs1 True ds = Inr (fs', False)"
            by (auto split: sum.splits simp del: unset_bits.simps)
          from disable_pass_inv[OF this] show ?thesis by simp
        qed
      qed
    qed
  qed
qed

text \<open>
  What both closures return is closed under the edges: for every edge, if the feature is
  in the result then so is its dependency. \<open>enable_depends\<close> reaches this by adding
  dependencies, \<open>disable_depends\<close> by removing the features whose dependency is missing.
\<close>

theorem depends_closed:
  "(\<forall>r. enable_depends s deps = Inr r \<longrightarrow>
      (\<forall>d \<in> set deps. test_nbit r (feature d) = Inr True \<longrightarrow> test_nbit r (dep d) = Inr True)) \<and>
   (\<forall>r. disable_depends s deps = Inr r \<longrightarrow>
      (\<forall>d \<in> set deps. test_nbit r (feature d) = Inr True \<longrightarrow> test_nbit r (dep d) = Inr True))"
proof (intro conjI allI impI)
  fix r assume "enable_depends s deps = Inr r"
  from enable_depends_result[OF this] have "enable_pass r False (rev deps) = Inr (r, False)" by simp
  from enable_pass_stable[OF this]
  show "\<forall>d \<in> set deps. test_nbit r (feature d) = Inr True \<longrightarrow> test_nbit r (dep d) = Inr True"
    by simp
next
  fix r assume "disable_depends s deps = Inr r"
  from disable_depends_result[OF this] have "disable_pass r False (rev deps) = Inr (r, False)" by simp
  from disable_pass_stable[OF this]
  show "\<forall>d \<in> set deps. test_nbit r (feature d) = Inr True \<longrightarrow> test_nbit r (dep d) = Inr True"
    by simp
qed

theorem depends_closed_witness:
  "enable_depends [5] [\<lparr>feature = 0, dep = 1\<rparr>, \<lparr>feature = 1, dep = 3\<rparr>] = Inr [15] \<and>
   test_nbit [15] 1 = Inr True \<and> test_nbit [15] 3 = Inr True"
proof -
  have e: "enable_depends [5] [\<lparr>feature = 0, dep = 1\<rparr>, \<lparr>feature = 1, dep = 3\<rparr>] = Inr [15]"
    by (simp add: eval_bits)
  have t: "test_nbit [15] 1 = Inr True" by (simp add: test_nbit_def)
  from depends_closed [where s = "[5]" and deps = "[\<lparr>feature = 0, dep = 1\<rparr>, \<lparr>feature = 1, dep = 3\<rparr>]",
      THEN conjunct1] e t
  have "test_nbit [15] 3 = Inr True" by simp
  with e t show ?thesis by simp
qed

subsection \<open>The loader scenario of the spec\<close>

text \<open>
  With target 0 the default target and target 1 sparse over it with overrides of
  functions 3 and 7, selecting target 1 keeps the default offsets, exposes the two
  overrides, and stores \<open>text_base\<close> plus the override offsets into the GOT slots of
  functions 3 and 7; nothing else is stored.
\<close>

theorem loader_sparse_scenario:
  "parse_sysimg sparse_sysimg (\<lambda>ids. Inr 1) Map.empty =
     Inr (\<lparr>res_base = 100000, res_offsets = Fvars 1, res_nclones = 2,
            res_clone_offsets = Some 0, res_clone_idxs = Some 3\<rparr>,
          store_ptr (store_ptr Map.empty 5000 (100000 + 1000)) 5008 (100000 + 2000))"
  by (simp add: eval_sysimg sparse_sysimg_def)

lemma sizeof_ptr_Suc: "sizeof_ptr = Suc (Suc (Suc (Suc (Suc (Suc (Suc (Suc 0)))))))"
  by (simp add: sizeof_ptr_def)

text \<open>
  With the slot of function 7 at data offset 4, half a pointer after the slot of
  function 3, the later store overwrites the upper half of the earlier slot: the slot of
  function 3 then holds neither address.
\<close>

theorem loader_overlap_scenario:
  "\<exists>res mem'.
     parse_sysimg overlap_sysimg (\<lambda>ids. Inr 1) Map.empty = Inr (res, mem') \<and>
     reloc_lookup overlap_sysimg 2 3 = Some 0 \<and>
     slot_addr overlap_sysimg 0 = 5000 \<and> slot_addr overlap_sysimg 1 = 5004 \<and>
     load_ptr mem' 5004 = Some 102000 \<and>
     load_ptr mem' 5000 = Some 0x00018e7000018a88"
proof -
  let ?m = "store_ptr (store_ptr Map.empty 5000 101000) 5004 102000"
  have p: "parse_sysimg overlap_sysimg (\<lambda>ids. Inr 1) Map.empty =
      Inr (sel_res sparse_selection, ?m)"
    by (simp add: eval_sysimg overlap_sysimg_def sparse_sysimg_def sparse_selection_def)
  have r: "reloc_lookup overlap_sysimg 2 3 = Some 0 \<and>
     slot_addr overlap_sysimg 0 = 5000 \<and> slot_addr overlap_sysimg 1 = 5004"
    by (simp add: overlap_sysimg_def sparse_sysimg_def slot_addr_def reloc_off_pos_def reloc_idx_pos_def
      reloc_lookup_def reloc_idx_at_def reloc_off_at_def upt_0_2)
  have l: "load_ptr ?m 5004 = Some 102000"
    by (simp add: load_store_ptr ptr_value_def sizeof_ptr_def)
  have l0: "load_ptr ?m 5000 = Some 0x00018e7000018a88"
    unfolding load_ptr_def store_ptr_def sizeof_ptr_Suc store_bytes.simps load_bytes.simps
    by simp
  from p r l l0 show ?thesis by simp
qed

subsection \<open>Further properties of the parser\<close>

lemma digit_value_foldl_nonneg:
  "0 \<le> a \<Longrightarrow> \<forall>c \<in> set ds. is_digit c \<Longrightarrow>
     0 \<le> foldl (\<lambda>a c. 10 * a + (int (of_char c) - 48)) a ds"
  by (induction ds arbitrary: a) (auto simp: is_digit_def)

lemma digit_value_nonneg: "\<forall>c \<in> set ds. is_digit c \<Longrightarrow> 0 \<le> digit_value ds"
  unfolding digit_value_def by (rule digit_value_foldl_nonneg) simp_all

lemma not_digit_paren: "\<not> is_digit CHR '')''"
  by (simp add: is_digit_def)

lemma strtol_digits:
  assumes "\<forall>c \<in> set ds. is_digit c"
  shows "strtol (ds @ '')'') = (min (digit_value ds) LONG_MAX, '')'')"
proof -
  from assms have "takeWhile is_digit (ds @ '')'') = ds" "dropWhile is_digit (ds @ '')'') = '')''"
    using not_digit_paren by (simp_all add: takeWhile_append2 dropWhile_append2)
  then show ?thesis by (simp add: strtol_def)
qed

lemma int32_of_id: "0 \<le> k \<Longrightarrow> k < 2147483648 \<Longrightarrow> int32_of k = k"
  by (simp add: int32_of_def)

lemma get_clone_base_digits:
  assumes ne: "ds \<noteq> []" and dig: "\<forall>c \<in> set ds. is_digit c"
    and k: "digit_value ds = k" and small: "k < 2147483647"
  shows "get_clone_base (''base('' @ ds @ '')'') = Inr (k + 1)"
proof -
  from dig k have k0: "0 \<le> k" using digit_value_nonneg by blast
  from ne dig have h: "is_digit (hd (ds @ '')''))" by (cases ds) simp_all
  from k0 small have m: "min k LONG_MAX = k" by (simp add: LONG_MAX_def)
  from k0 small have i: "int32_of k = k" by (intro int32_of_id) simp_all
  show ?thesis
    using h k0 small
    by (simp add: get_clone_base_def strtol_digits[OF dig] k m i)
qed

text \<open>
  For an index below \<open>INT_MAX\<close> the code does what the parser's comment says about
  \<open>base(k)\<close> in the target at index \<open>length res\<close>: an error for a disabled token, for
  an index that does not name a previous target, and for a base target that is not
  \<open>clone_all\<close>; otherwise \<open>base = k\<close>.
\<close>

theorem base_token_in_range:
  assumes "ds \<noteq> []" and "\<forall>c \<in> set ds. is_digit c"
    and "digit_value ds = k" and "k < 2147483647"
    and "split_sign full = (disable, ''base('' @ ds @ '')'')"
    and "length res < 2147483648"
  shows "parse_token cb res arg full =
     (if disable then Inl (JlError ''Invalid target option: disabled base index.'')
      else if k \<ge> int (length res)
      then Inl (JlError ''Invalid target option: base index must refer to a previous target.'')
      else if flags (dis (res ! nat k)) AND JL_TARGET_CLONE_ALL \<noteq> 0 \<or>
              flags (en (res ! nat k)) AND JL_TARGET_CLONE_ALL = 0
      then Inl (JlError ''Invalid target option: base target must be clone_all.'')
      else Inr (arg\<lparr>base := k\<rparr>))"
proof -
  from assms(2,3) have k0: "0 \<le> k" using digit_value_nonneg by blast
  from assms(6) have l: "int32_of (int (length res)) = int (length res)"
    by (intro int32_of_id) simp_all
  have g: "get_clone_base (''base('' @ ds @ '')'') = Inr (k + 1)"
    using assms(1-4) by (rule get_clone_base_digits)
  show ?thesis
    using k0 by (auto simp: parse_token_def assms(5) g[simplified] l)
qed

theorem base_token_in_range_witness:
  "parse_token (lookup_feature_cb []) [empty_target 1] (empty_target 1) ''base(5)'' =
     Inl (JlError ''Invalid target option: base index must refer to a previous target.'') \<and>
   parse_cmdline 1 (lookup_feature_cb []) (Some ''generic;haswell,base(5)'') =
     Inl (JlError ''Invalid target option: base index must refer to a previous target.'')"
proof -
  have d: "\<forall>c \<in> set ''5''. is_digit c" "digit_value ''5'' = 5"
    by (simp_all add: is_digit_def digit_value_def)
  have s: "split_sign ''base(5)'' = (False, ''base('' @ ''5'' @ '')'')"
    by (simp add: split_sign_def)
  from base_token_in_range [where ds = "''5''" and k = 5 and full = "''base(5)''"
      and disable = False and res = "[empty_target 1]" and cb = "lookup_feature_cb []"
      and arg = "empty_target 1", OF _ d _ s]
  have "parse_token (lookup_feature_cb []) [empty_target 1] (empty_target 1) ''base(5)'' =
     Inl (JlError ''Invalid target option: base index must refer to a previous target.'')"
    by simp
  moreover have "parse_cmdline 1 (lookup_feature_cb []) (Some ''generic;haswell,base(5)'') =
     Inl (JlError ''Invalid target option: base index must refer to a previous target.'')"
    by (simp add: eval_parse)
  ultimately show ?thesis by simp
qed

text \<open>The parser scenarios of the spec, run on the model.\<close>

theorem parser_scenarios:
  "parse_cmdline 1 (lookup_feature_cb [(''sse4.1'', 3, 0), (''avx2'', 5, 0)])
       (Some ''generic,+sse4.1,-avx2'') =
     Inr [\<lparr>name = ''generic'', ext_features = [],
           en = \<lparr>features = [8], flags = 0\<rparr>,
           dis = \<lparr>features = [32], flags = 0\<rparr>, base = 0\<rparr>] \<and>
   parse_cmdline 1 (lookup_feature_cb []) (Some ''generic,clone_all;haswell,base(0)'') =
     Inr [\<lparr>name = ''generic'', ext_features = [],
           en = \<lparr>features = [0], flags = JL_TARGET_CLONE_ALL\<rparr>,
           dis = \<lparr>features = [0], flags = 0\<rparr>, base = 0\<rparr>,
          \<lparr>name = ''haswell'', ext_features = [],
           en = \<lparr>features = [0], flags = 0\<rparr>,
           dis = \<lparr>features = [0], flags = 0\<rparr>, base = 0\<rparr>] \<and>
   parse_cmdline 1 (lookup_feature_cb []) (Some '''') =
     Inl (JlError ''Invalid target option: empty CPU name'')"
  by (simp add: eval_parse set_bit_fl_def)

text \<open>
  \<^verbatim>\<open>reset_arg\<close> clears every field of \<^verbatim>\<open>arg\<close> but \<^verbatim>\<open>base\<close>: a target
  without a \<open>base(k)\<close> token gets the base of the target before it.
\<close>

theorem base_carried_over:
  "base (snd (reset_arg n res arg)) = base arg \<and>
   parse_cmdline 1 (lookup_feature_cb []) (Some ''a,clone_all;b,clone_all;c,base(1);d'') =
     Inr [\<lparr>name = ''a'', ext_features = [], en = \<lparr>features = [0], flags = 1\<rparr>,
           dis = \<lparr>features = [0], flags = 0\<rparr>, base = 0\<rparr>,
          \<lparr>name = ''b'', ext_features = [], en = \<lparr>features = [0], flags = 1\<rparr>,
           dis = \<lparr>features = [0], flags = 0\<rparr>, base = 0\<rparr>,
          \<lparr>name = ''c'', ext_features = [], en = \<lparr>features = [0], flags = 0\<rparr>,
           dis = \<lparr>features = [0], flags = 0\<rparr>, base = 1\<rparr>,
          \<lparr>name = ''d'', ext_features = [], en = \<lparr>features = [0], flags = 0\<rparr>,
           dis = \<lparr>features = [0], flags = 0\<rparr>, base = 1\<rparr>]"
  by (simp add: eval_parse)

text \<open>
  A malformed \<open>base(\<close> token is forwarded as a feature name: \<open>generic,base(x)\<close> parses
  to one target with \<open>ext_features = +base(x)\<close>.
\<close>

theorem malformed_base_scenario:
  "parse_cmdline 1 (lookup_feature_cb []) (Some ''generic,base(x)'') =
     Inr [\<lparr>name = ''generic'', ext_features = ''+base(x)'',
           en = \<lparr>features = [0], flags = 0\<rparr>,
           dis = \<lparr>features = [0], flags = 0\<rparr>, base = 0\<rparr>]"
  by (simp add: eval_parse)

end
